theory Spec2Isabelle
  imports Complex_Main "HOL-Library.Word" "HOL-Library.Multiset" "HOL-Library.Log_Nat"
    "HOL-Library.Sublist"
    "HOL-Library.Signed_Division"
begin

unbundle bit_operations_syntax

section \<open>Go values used by the schema helpers\<close>

text \<open>
  Go strings are byte sequences: \<open>string\<close> (a list of 8-bit characters) is the same
  data. \<open>uint64\<close> and \<open>int64\<close> are 64-bit words, read unsigned or in two's complement;
  a \<open>byte\<close> is an 8-bit word. An \<open>interface{}\<close> value is one of the dynamic types that a
  schema field can carry.
\<close>

type_synonym byte = "8 word"
type_synonym uint64 = "64 word"
type_synonym int64 = "64 word"

datatype iface = VString string | VInt int | VBool bool | VNil

text \<open>
  A panic is a result of its own. \<open>ErrorPanic msg e\<close> stands for
  \<open>panic(msg + e.Error())\<close>; \<open>TypeAssertionPanic\<close> for a failed single-value type
  assertion \<open>i.(string)\<close>.
\<close>

datatype 'e panic_value = ErrorPanic string 'e | TypeAssertionPanic

definition byte_of :: "char \<Rightarrow> byte" where
  "byte_of c = of_char c"

section \<open>strconv.ParseInt and strconv.ParseUint (Go standard library)\<close>

datatype err_kind = ErrSyntax | ErrRange | ErrBase int | ErrBitSize int

record NumError =
  Func :: string
  Num :: string
  Err :: err_kind

definition syntaxError :: "string \<Rightarrow> string \<Rightarrow> NumError" where
  "syntaxError fn str = \<lparr>Func = fn, Num = str, Err = ErrSyntax\<rparr>"

definition rangeError :: "string \<Rightarrow> string \<Rightarrow> NumError" where
  "rangeError fn str = \<lparr>Func = fn, Num = str, Err = ErrRange\<rparr>"

definition baseError :: "string \<Rightarrow> string \<Rightarrow> int \<Rightarrow> NumError" where
  "baseError fn str base = \<lparr>Func = fn, Num = str, Err = ErrBase base\<rparr>"

definition bitSizeError :: "string \<Rightarrow> string \<Rightarrow> int \<Rightarrow> NumError" where
  "bitSizeError fn str bitSize = \<lparr>Func = fn, Num = str, Err = ErrBitSize bitSize\<rparr>"

definition fnParseUint :: string where
  "fnParseUint = ''ParseUint''"

definition fnParseInt :: string where
  "fnParseInt = ''ParseInt''"

definition IntSize :: int where
  "IntSize = 64"

definition maxUint64 :: uint64 where
  "maxUint64 = - 1"

text \<open>\<open>lower(c)\<close> is \<open>c | ('x' - 'X')\<close>.\<close>

definition lower :: "byte \<Rightarrow> byte" where
  "lower c = c OR 0x20"

text \<open>
  \<open>underscoreOK\<close>: the scan over the number proper, with \<open>saw\<close> the class of the last
  character seen (one of the characters \<open>^\<close>, \<open>0\<close>, \<open>_\<close>, \<open>!\<close>).
\<close>

fun underscoreOK_loop :: "bool \<Rightarrow> char \<Rightarrow> string \<Rightarrow> bool" where
  "underscoreOK_loop hex saw [] = (saw \<noteq> CHR ''_'')"
| "underscoreOK_loop hex saw (c # cs) =
     (if (0x30 \<le> byte_of c \<and> byte_of c \<le> 0x39)
         \<or> (hex \<and> 0x61 \<le> lower (byte_of c) \<and> lower (byte_of c) \<le> 0x66)
      then underscoreOK_loop hex (CHR ''0'') cs
      else if c = CHR ''_''
      then (if saw \<noteq> CHR ''0'' then False else underscoreOK_loop hex (CHR ''_'') cs)
      else if saw = CHR ''_'' then False
      else underscoreOK_loop hex (CHR ''!'') cs)"

definition underscoreOK :: "string \<Rightarrow> bool" where
  "underscoreOK s0 =
     (let s = (if length s0 \<ge> 1 \<and> (s0 ! 0 = CHR ''-'' \<or> s0 ! 0 = CHR ''+'') then drop 1 s0 else s0)
      in if length s \<ge> 2 \<and> s ! 0 = CHR ''0''
            \<and> (lower (byte_of (s ! 1)) = 0x62 \<or> lower (byte_of (s ! 1)) = 0x6F
                \<or> lower (byte_of (s ! 1)) = 0x78)
         then underscoreOK_loop (lower (byte_of (s ! 1)) = 0x78) (CHR ''0'') (drop 2 s)
         else underscoreOK_loop False (CHR ''^'') s)"

text \<open>
  The digit loop of \<open>ParseUint\<close>. \<open>Inl\<close> is an early return of the function with its
  pair of results; \<open>Inr\<close> is the end of the loop with the accumulated number and the
  \<open>underscores\<close> flag.
\<close>

fun ParseUint_loop ::
  "bool \<Rightarrow> int \<Rightarrow> uint64 \<Rightarrow> uint64 \<Rightarrow> string \<Rightarrow> bool \<Rightarrow> uint64 \<Rightarrow> string
    \<Rightarrow> (uint64 \<times> NumError option) + (uint64 \<times> bool)" where
  "ParseUint_loop base0 base cutoff maxVal s0 underscores n [] = Inr (n, underscores)"
| "ParseUint_loop base0 base cutoff maxVal s0 underscores n (ch # cs) =
     (let c = byte_of ch in
      if c = 0x5F \<and> base0 then ParseUint_loop base0 base cutoff maxVal s0 True n cs
      else
        (case (if 0x30 \<le> c \<and> c \<le> 0x39 then Some (c - 0x30)
               else if 0x61 \<le> lower c \<and> lower c \<le> 0x7A then Some (lower c - 0x61 + 10)
               else None) of
           None \<Rightarrow> Inl (0, Some (syntaxError fnParseUint s0))
         | Some d \<Rightarrow>
             if d \<ge> word_of_int base then Inl (0, Some (syntaxError fnParseUint s0))
             else if n \<ge> cutoff then Inl (maxVal, Some (rangeError fnParseUint s0))
             else
               (let n' = n * word_of_int base;
                    n1 = n' + ucast d
                in if n1 < n' \<or> n1 > maxVal then Inl (maxVal, Some (rangeError fnParseUint s0))
                   else ParseUint_loop base0 base cutoff maxVal s0 underscores n1 cs)))"

text \<open>The base-0 prefix switch: the base and the rest of the string.\<close>

definition base_prefix :: "string \<Rightarrow> int \<times> string" where
  "base_prefix s =
     (if s ! 0 = CHR ''0'' then
        (if length s \<ge> 3 \<and> lower (byte_of (s ! 1)) = 0x62 then (2, drop 2 s)
         else if length s \<ge> 3 \<and> lower (byte_of (s ! 1)) = 0x6F then (8, drop 2 s)
         else if length s \<ge> 3 \<and> lower (byte_of (s ! 1)) = 0x78 then (16, drop 2 s)
         else (8, drop 1 s))
      else (10, s))"

definition ParseUint :: "string \<Rightarrow> int \<Rightarrow> int \<Rightarrow> uint64 \<times> NumError option" where
  "ParseUint s base bitSize =
     (if s = [] then (0, Some (syntaxError fnParseUint s))
      else
        (case (if 2 \<le> base \<and> base \<le> 36 then Some (base, s)
               else if base = 0 then Some (base_prefix s)
               else None) of
           None \<Rightarrow> (0, Some (baseError fnParseUint s base))
         | Some (b, digits) \<Rightarrow>
             (case (if bitSize = 0 then Some IntSize
                    else if bitSize < 0 \<or> bitSize > 64 then None
                    else Some bitSize) of
                None \<Rightarrow> (0, Some (bitSizeError fnParseUint s bitSize))
              | Some bs \<Rightarrow>
                  (let cutoff = maxUint64 div word_of_int b + 1;
                       maxVal = push_bit (nat bs) 1 - 1
                   in case ParseUint_loop (base = 0) b cutoff maxVal s False 0 digits of
                        Inl r \<Rightarrow> r
                      | Inr (n, underscores) \<Rightarrow>
                          if underscores \<and> \<not> underscoreOK s
                          then (0, Some (syntaxError fnParseUint s))
                          else (n, None)))))"

definition ParseInt :: "string \<Rightarrow> int \<Rightarrow> int \<Rightarrow> int64 \<times> NumError option" where
  "ParseInt s0 base bitSize =
     (if s0 = [] then (0, Some (syntaxError fnParseInt s0))
      else
        (let neg = (s0 ! 0 = CHR ''-'');
             s = (if s0 ! 0 = CHR ''+'' \<or> s0 ! 0 = CHR ''-'' then drop 1 s0 else s0);
             (un, err) = ParseUint s base bitSize
         in if err \<noteq> None \<and> Err (the err) \<noteq> ErrRange
            then (0, Some ((the err)\<lparr>Func := fnParseInt, Num := s0\<rparr>))
            else
              (let bs = (if bitSize = 0 then IntSize else bitSize);
                   cutoff = (push_bit (nat (bs - 1)) 1 :: uint64)
               in if \<not> neg \<and> un \<ge> cutoff then (cutoff - 1, Some (rangeError fnParseInt s0))
                  else if neg \<and> un > cutoff then (- cutoff, Some (rangeError fnParseInt s0))
                  else (if neg then - un else un, None))))"

section \<open>Regular expressions (Go package regexp) and validation.StringMatch\<close>

text \<open>
  The syntax of the patterns that the helpers compile: \<open>^\<close> and \<open>$\<close> (begin and end
  of the text, no multi-line flag), a character class, concatenation, alternation,
  \<open>+\<close> and \<open>?\<close>. \<open>\d\<close> is the class of the ASCII digits.
\<close>

datatype regex = Eps | BeginText | EndText | CharClass "char list"
  | Seq regex regex | Alt regex regex | Plus regex | Quest regex

definition Lit :: "string \<Rightarrow> regex" where
  "Lit cs = foldr (\<lambda>c r. Seq (CharClass [c]) r) cs Eps"

definition digit :: regex where
  "digit = CharClass ''0123456789''"

text \<open>
  \<open>iter_plus f n i\<close>: the positions reached from \<open>i\<close> by one to \<open>n + 1\<close> rounds of
  \<open>f\<close>. An iteration of \<open>+\<close> that consumes nothing changes no position, so the rounds that
  matter consume at least one character each and \<open>length s\<close> extra rounds are enough.
\<close>

fun iter_plus :: "(nat \<Rightarrow> nat list) \<Rightarrow> nat \<Rightarrow> nat \<Rightarrow> nat list" where
  "iter_plus f 0 i = f i"
| "iter_plus f (Suc n) i = remdups (f i @ concat (map (iter_plus f n) (f i)))"

text \<open>
  \<open>ends r s i\<close>: the positions \<open>j\<close> such that \<open>r\<close> matches the text \<open>s\<close> from position
  \<open>i\<close> up to position \<open>j\<close>.
\<close>

primrec ends :: "regex \<Rightarrow> string \<Rightarrow> nat \<Rightarrow> nat list" where
  "ends Eps s = (\<lambda>i. [i])"
| "ends BeginText s = (\<lambda>i. if i = 0 then [i] else [])"
| "ends EndText s = (\<lambda>i. if i = length s then [i] else [])"
| "ends (CharClass cs) s = (\<lambda>i. if i < length s \<and> s ! i \<in> set cs then [Suc i] else [])"
| "ends (Seq r1 r2) s = (\<lambda>i. remdups (concat (map (ends r2 s) (ends r1 s i))))"
| "ends (Alt r1 r2) s = (\<lambda>i. remdups (ends r1 s i @ ends r2 s i))"
| "ends (Plus r) s = iter_plus (ends r s) (length s)"
| "ends (Quest r) s = (\<lambda>i. remdups (ends r s i @ [i]))"

text \<open>\<open>MatchString\<close> reports whether the text contains any match of the pattern.\<close>

definition MatchString :: "regex \<Rightarrow> string \<Rightarrow> bool" where
  "MatchString r s = list_ex (\<lambda>i. ends r s i \<noteq> []) [0..<Suc (length s)]"

text \<open>
  The errors of \<open>validation.StringMatch\<close>, by format string:
  \<open>expected type of %s to be string\<close>, \<open>invalid value for %s (%s)\<close> and
  \<open>expected value of %s to match regular expression %q, got %v\<close>.
\<close>

datatype validation_error = ExpectedString string | InvalidValue string string
  | ExpectedMatch string regex iface

definition StringMatch :: "regex \<Rightarrow> string \<Rightarrow> iface \<Rightarrow> string \<Rightarrow> string list \<times> validation_error list" where
  "StringMatch r message i k =
     (case i of
        VString v \<Rightarrow>
          if \<not> MatchString r v then
            (if message \<noteq> [] then ([], [InvalidValue k message])
             else ([], [ExpectedMatch k r i]))
          else ([], [])
      | _ \<Rightarrow> ([], [ExpectedString k]))"

section \<open>time.Duration and its Seconds method (Go standard library)\<close>

text \<open>
  A finite \<open>float64\<close> is the rational number it denotes. \<open>to_float64\<close> rounds a rational
  to the nearest \<open>float64\<close>, ties to even, with 53 bits of precision and the smallest
  exponent \<open>-1022\<close>; the largest exponent is not modelled, every value here being below
  \<open>2 ^ 64\<close>.
\<close>

type_synonym float64 = rat
type_synonym Duration = int64

definition round_half_even :: "rat \<Rightarrow> int" where
  "round_half_even x =
     (let f = \<lfloor>x\<rfloor>; r = x - of_int f
      in if r < 1 / 2 then f else if 1 / 2 < r then f + 1 else if even f then f else f + 1)"

text \<open>The \<open>e\<close> with \<open>2 ^ e \<le> \<bar>x\<bar> < 2 ^ (e + 1)\<close>, for \<open>x \<noteq> 0\<close>.\<close>

definition binade :: "rat \<Rightarrow> int" where
  "binade x =
     (let (p, q) = quotient_of \<bar>x\<bar>; e = bitlen p - bitlen q
      in if 2 powi e \<le> \<bar>x\<bar> then e else e - 1)"

definition to_float64 :: "rat \<Rightarrow> float64" where
  "to_float64 x =
     (if x = 0 then 0
      else (let q = 2 powi (max (binade x) (- 1022) - 52)
            in of_int (round_half_even (x / q)) * q))"

definition float64_of_int64 :: "int64 \<Rightarrow> float64" where
  "float64_of_int64 n = to_float64 (of_int (sint n))"

definition float64_add :: "float64 \<Rightarrow> float64 \<Rightarrow> float64" where
  "float64_add x y = to_float64 (x + y)"

definition float64_div :: "float64 \<Rightarrow> float64 \<Rightarrow> float64" where
  "float64_div x y = to_float64 (x / y)"

text \<open>
  Go's \<open>/\<close> and \<open>%\<close> on \<open>int64\<close> truncate towards zero: \<open>sdiv\<close> and \<open>smod\<close> on the
  signed values.
\<close>

definition Second :: Duration where
  "Second = 1000000000"

definition Seconds :: "Duration \<Rightarrow> float64" where
  "Seconds d =
     (let sec = (word_of_int (sint d sdiv sint Second) :: Duration);
          nsec = (word_of_int (sint d smod sint Second) :: Duration)
      in float64_add (float64_of_int64 sec) (float64_div (float64_of_int64 nsec) 1000000000))"

section \<open>The schema of the plugin SDK, as far as the helpers fill it\<close>

typedecl ResourceData
typedecl PathStep

type_synonym Path = "PathStep list"

datatype ValueType = TypeInvalid | TypeBool | TypeInt | TypeFloat | TypeString | TypeList
  | TypeMap | TypeSet

datatype Severity = Error | Warning

record Diagnostic =
  Severity :: Severity
  Summary :: string
  Detail :: string

type_synonym Diagnostics = "Diagnostic list"

text \<open>A \<open>*schema.ResourceData\<close> argument is a pointer: \<open>None\<close> is \<open>nil\<close>.\<close>

type_synonym SchemaDiffSuppressFunc =
  "string \<Rightarrow> string \<Rightarrow> string \<Rightarrow> ResourceData option \<Rightarrow> bool"

record Schema =
  Type :: ValueType
  Optional :: bool
  Required :: bool
  Computed :: bool
  Default :: iface
  Description :: string
  DiffSuppressFunc :: "SchemaDiffSuppressFunc option"
  ValidateFunc :: "(iface \<Rightarrow> string \<Rightarrow> string list \<times> validation_error list) option"
  ValidateDiagFunc :: "(iface \<Rightarrow> Path \<Rightarrow> NumError panic_value + Diagnostics) option"

section \<open>provider\_schema\_helpers.go\<close>

definition MetaId :: string where
  "MetaId = ''___id___''"

definition MetaResourcePath :: string where
  "MetaResourcePath = ''___path___''"

subsection \<open>PropMtuRw\<close>

text \<open>The \<open>ValidateDiagFunc\<close> closure of \<open>PropMtuRw\<close>.\<close>

definition PropMtuRw_ValidateDiagFunc :: "iface \<Rightarrow> Path \<Rightarrow> NumError panic_value + Diagnostics" where
  "PropMtuRw_ValidateDiagFunc i path =
     (case i of
        VString v \<Rightarrow>
          if v = ''auto'' then Inr []
          else
            (let (mtu, err) = ParseInt v 0 64
             in if err \<noteq> None
                then Inr [\<lparr>Severity = Error,
                           Summary = ''Expected MTU value to be integer or '' @ [CHR 0x27] @ ''auto''
                             @ [CHR 0x27],
                           Detail = ''''\<rparr>]
                else if mtu <s 0 \<or> 65535 <s mtu
                then Inr [\<lparr>Severity = Error,
                           Summary = ''Expected MTU value to be in the range (0 - 65535), got '' @ v,
                           Detail = ''''\<rparr>]
                else Inr [])
      | _ \<Rightarrow> Inl TypeAssertionPanic)"

definition PropMtuRw :: Schema where
  "PropMtuRw =
     \<lparr>Type = TypeString, Optional = True, Required = False, Computed = True, Default = VNil,
      Description = ''Layer3 Maximum transmission unit ('' @ [CHR 0x27] @ ''auto'' @ [CHR 0x27]
        @ '', 0 .. 65535)'',
      DiffSuppressFunc = None, ValidateFunc = None,
      ValidateDiagFunc = Some PropMtuRw_ValidateDiagFunc\<rparr>"

subsection \<open>PropResourcePath and PropId\<close>

text \<open>
  \<open>IdType\<close> is declared outside these source files. \<open>PropId\<close> converts it with
  \<open>int(t)\<close>, so it is a named integer type: a wrapper of an integer, and \<open>int_of_IdType\<close>
  is the conversion.
\<close>

datatype IdType = IdType int

fun int_of_IdType :: "IdType \<Rightarrow> int" where
  "int_of_IdType (IdType n) = n"

definition PropResourcePath :: "string \<Rightarrow> Schema" where
  "PropResourcePath p =
     \<lparr>Type = TypeString, Optional = True, Required = False, Computed = False,
      Default = VString p,
      Description = ''<em>Resource path for CRUD operations. This is an internal service field, setting a value is not required.</em>'',
      DiffSuppressFunc = Some (\<lambda>k old new d. True), ValidateFunc = None,
      ValidateDiagFunc = None\<rparr>"

definition PropId :: "IdType \<Rightarrow> Schema" where
  "PropId t =
     \<lparr>Type = TypeInt, Optional = True, Required = False, Computed = False,
      Default = VInt (int_of_IdType t),
      Description = ''<em>Resource ID type (.id / name). This is an internal service field, setting a value is not required.</em>'',
      DiffSuppressFunc = Some (\<lambda>k old new d. True), ValidateFunc = None,
      ValidateDiagFunc = None\<rparr>"

subsection \<open>PropArpTimeoutRw and ValidationTime\<close>

text \<open>The pattern \<open>^$|auto$|(\d+(ms|s|M|h|d)?)+$\<close>.\<close>

definition ArpTimeout_regexp :: regex where
  "ArpTimeout_regexp =
     Alt (Seq BeginText EndText)
       (Alt (Seq (Lit ''auto'') EndText)
          (Seq (Plus (Seq (Plus digit)
                  (Quest (Alt (Lit ''ms'') (Alt (Lit ''s'') (Alt (Lit ''M'')
                     (Alt (Lit ''h'') (Lit ''d''))))))))
             EndText))"

definition PropArpTimeoutRw_ValidateFunc :: "iface \<Rightarrow> string \<Rightarrow> string list \<times> validation_error list" where
  "PropArpTimeoutRw_ValidateFunc =
     StringMatch ArpTimeout_regexp
       (''expected arp_timout value to be '' @ [CHR 0x27] @ ''auto'' @ [CHR 0x27]
          @ '' string or time value'')"

definition PropArpTimeoutRw :: Schema where
  "PropArpTimeoutRw =
     \<lparr>Type = TypeString, Optional = True, Required = False, Computed = False,
      Default = VString ''auto'',
      Description = ''ARP timeout is time how long ARP record is kept in ARP table after no packets are received ''
        @ ''from IP. Value auto equals to the value of arp-timeout in IP/Settings, default is 30s. Can use postfix ''
        @ ''ms, s, M, h, d for milliseconds, seconds, minutes, hours or days. If no postfix is set then seconds (s) is used.'',
      DiffSuppressFunc = None,
      ValidateFunc = Some PropArpTimeoutRw_ValidateFunc,
      ValidateDiagFunc = None\<rparr>"

text \<open>The pattern \<open>^(\d+[smhdw]?)+$\<close>.\<close>

definition ValidationTime_regexp :: regex where
  "ValidationTime_regexp =
     Seq BeginText (Seq (Plus (Seq (Plus digit) (Quest (CharClass ''smhdw'')))) EndText)"

definition ValidationTime :: "iface \<Rightarrow> string \<Rightarrow> string list \<times> validation_error list" where
  "ValidationTime =
     StringMatch ValidationTime_regexp ''value must be integer[/time],integer 0..4294967295''"

subsection \<open>TimeEquall and HexEqual\<close>

text \<open>
  \<open>ParseDuration\<close> is a function of the package outside these source files; \<open>TimeEquall\<close>
  takes it as its first argument, with Go's pair of results: the duration and the error,
  \<open>None\<close> for \<open>nil\<close>.
\<close>

definition TimeEquall ::
  "(string \<Rightarrow> Duration \<times> 'e option) \<Rightarrow> string \<Rightarrow> string \<Rightarrow> string \<Rightarrow> ResourceData option
    \<Rightarrow> 'e panic_value + bool" where
  "TimeEquall ParseDuration k old new d =
     (if old = new then Inr True
      else if old = [] \<or> new = [] then Inr False
      else
        (case ParseDuration old of
           (oDuration, Some err) \<Rightarrow>
             Inl (ErrorPanic (''[TimeEquall] parse '' @ [CHR 0x27] @ ''old'' @ [CHR 0x27]
                                @ '' duration error: '') err)
         | (oDuration, None) \<Rightarrow>
             (case ParseDuration new of
                (nDuration, Some err) \<Rightarrow>
                  Inl (ErrorPanic (''[TimeEquall] parse '' @ [CHR 0x27] @ ''new'' @ [CHR 0x27]
                                     @ '' duration error: '') err)
              | (nDuration, None) \<Rightarrow> Inr (Seconds oDuration = Seconds nDuration))))"

definition HexEqual ::
  "string \<Rightarrow> string \<Rightarrow> string \<Rightarrow> ResourceData option \<Rightarrow> NumError panic_value + bool" where
  "HexEqual k old new d =
     (if old = new then Inr True
      else if old = [] \<or> new = [] then Inr False
      else
        (case ParseInt old 0 64 of
           (iOld, Some err) \<Rightarrow>
             Inl (ErrorPanic (''[HexEqual] '' @ [CHR 0x27] @ ''old'' @ [CHR 0x27]
                                @ '' number parse error: '') err)
         | (iOld, None) \<Rightarrow>
             (case ParseInt new 0 64 of
                (iNew, Some err) \<Rightarrow>
                  Inl (ErrorPanic (''[HexEqual] '' @ [CHR 0x27] @ ''new'' @ [CHR 0x27]
                                     @ '' number parse error: '') err)
              | (iNew, None) \<Rightarrow> Inr (iOld = iNew))))"

subsection \<open>buildReadFilter\<close>

text \<open>
  \<open>%v\<close> of package fmt: a string as it is, an integer in decimal, a boolean as
  \<open>true\<close> or \<open>false\<close>, the nil interface as \<open><nil>\<close>.
\<close>

fun decimal_nat :: "nat \<Rightarrow> string" where
  "decimal_nat n =
     (if n < 10 then [char_of (48 + n)]
      else decimal_nat (n div 10) @ [char_of (48 + n mod 10)])"

definition fmt_v :: "iface \<Rightarrow> string" where
  "fmt_v x =
     (case x of
        VString s \<Rightarrow> s
      | VInt n \<Rightarrow> (if n < 0 then ''-'' @ decimal_nat (nat (- n)) else decimal_nat (nat n))
      | VBool b \<Rightarrow> (if b then ''true'' else ''false'')
      | VNil \<Rightarrow> ''<nil>'')"

text \<open>
  \<open>for fieldName, fieldValue := range m\<close> visits every entry of the map once, in an
  order that the language leaves unspecified and that may change from one loop to the
  next. The order is an argument of the model: \<open>range_order m ks\<close> says that \<open>ks\<close> is
  a possible order of the keys.
\<close>

definition range_order :: "(string \<rightharpoonup> iface) \<Rightarrow> string list \<Rightarrow> bool" where
  "range_order m ks \<longleftrightarrow> distinct ks \<and> set ks = dom m"

fun buildReadFilter_loop :: "(string \<rightharpoonup> iface) \<Rightarrow> string list \<Rightarrow> string list \<Rightarrow> string list" where
  "buildReadFilter_loop m res [] = res"
| "buildReadFilter_loop m res (fieldName # ks) =
     (case m fieldName of
        Some fieldValue \<Rightarrow>
          buildReadFilter_loop m (res @ [fmt_v (VString fieldName) @ ''='' @ fmt_v fieldValue]) ks
      | None \<Rightarrow> buildReadFilter_loop m res ks)"

definition buildReadFilter :: "(string \<rightharpoonup> iface) \<Rightarrow> string list \<Rightarrow> string list" where
  "buildReadFilter m ks = buildReadFilter_loop m [] ks"

section \<open>ParseDuration\<close>

text \<open>
  Modelled from the spec: \<open>ParseDuration\<close>, which \<open>TimeEquall\<close> calls, is not among the
  source files. The spec has a duration as a sequence of \<open><integer><unit>\<close> tokens with
  the units ms, s, M, h, d and w, and has two durations compared by their seconds. The
  model adds up the tokens in nanoseconds, the unit of \<open>time.Duration\<close>; a text that is
  not such a sequence of one or more tokens, or whose sum does not fit \<open>int64\<close>, is an
  error.
\<close>

datatype duration_error = InvalidDuration string

definition is_digit :: "char \<Rightarrow> bool" where
  "is_digit c \<longleftrightarrow> c \<in> set ''0123456789''"

definition decimal_value :: "string \<Rightarrow> int" where
  "decimal_value ds = foldl (\<lambda>n c. 10 * n + (of_char c - 48)) 0 ds"

definition duration_unit :: "string \<Rightarrow> (int \<times> string) option" where
  "duration_unit s =
     (if take 2 s = ''ms'' then Some (1000000, drop 2 s)
      else if take 1 s = ''s'' then Some (1000000000, drop 1 s)
      else if take 1 s = ''M'' then Some (60 * 1000000000, drop 1 s)
      else if take 1 s = ''h'' then Some (3600 * 1000000000, drop 1 s)
      else if take 1 s = ''d'' then Some (86400 * 1000000000, drop 1 s)
      else if take 1 s = ''w'' then Some (604800 * 1000000000, drop 1 s)
      else None)"

function duration_tokens :: "int \<Rightarrow> string \<Rightarrow> int option" where
  "duration_tokens acc s =
     (if s = [] then Some acc
      else if takeWhile is_digit s = [] then None
      else
        (case duration_unit (dropWhile is_digit s) of
           None \<Rightarrow> None
         | Some (u, r) \<Rightarrow> duration_tokens (acc + decimal_value (takeWhile is_digit s) * u) r))"
  by pat_completeness auto
termination
proof (relation "measure (\<lambda>(acc, s). length s)")
  show "wf (measure (\<lambda>(acc, s). length s))"
    by simp
next
  fix acc :: int and s :: string and x2 x y
  assume s: "s \<noteq> []" and d: "takeWhile is_digit s \<noteq> []"
    and u: "duration_unit (dropWhile is_digit s) = Some x2" and x: "(x, y) = x2"
  have "length y \<le> length (dropWhile is_digit s)"
    using u x by (auto simp: duration_unit_def split: if_splits)
  moreover have "length (dropWhile is_digit s) < length s"
  proof -
    have "length (takeWhile is_digit s) + length (dropWhile is_digit s) = length s"
      by (metis length_append takeWhile_dropWhile_id)
    moreover have "0 < length (takeWhile is_digit s)"
      using d by simp
    ultimately show ?thesis
      by linarith
  qed
  ultimately show "((acc + decimal_value (takeWhile is_digit s) * x, y), acc, s)
      \<in> measure (\<lambda>(acc, s). length s)"
    by simp
qed

declare duration_tokens.simps [simp del]

definition ParseDuration :: "string \<Rightarrow> Duration \<times> duration_error option" where
  "ParseDuration s =
     (if s = [] then (0, Some (InvalidDuration s))
      else
        (case duration_tokens 0 s of
           None \<Rightarrow> (0, Some (InvalidDuration s))
         | Some ns \<Rightarrow>
             if ns < 2 ^ 63 then (word_of_int ns, None)
             else (0, Some (InvalidDuration s))))"

section \<open>Notions of the claims\<close>

text \<open>
  A time token is an integer, one or more decimal digits, and a unit, which may be
  missing; \<open>time_text\<close> is the text of a sequence of tokens.
\<close>

definition valid_time_token :: "string list \<Rightarrow> string \<times> string \<Rightarrow> bool" where
  "valid_time_token units t \<longleftrightarrow>
     fst t \<noteq> [] \<and> list_all is_digit (fst t) \<and> (snd t = [] \<or> snd t \<in> set units)"

definition time_text :: "(string \<times> string) list \<Rightarrow> string" where
  "time_text toks = concat (map (\<lambda>t. fst t @ snd t) toks)"

text \<open>The constraint \<open><fieldName>=<fieldValue>\<close> of the entry of a filter map at a key.\<close>

definition filter_entry :: "(string \<rightharpoonup> iface) \<Rightarrow> string \<Rightarrow> string" where
  "filter_entry m fieldName = fieldName @ ''='' @ fmt_v (the (m fieldName))"

section \<open>The MTU validator\<close>

text \<open>The three exits of the validator on a string, by the result of \<open>ParseInt\<close>.\<close>

lemma mtu_cases:
  "PropMtuRw_ValidateDiagFunc (VString v) path =
     (if v = ''auto'' then Inr []
      else case ParseInt v 0 64 of
        (mtu, Some e) \<Rightarrow> Inr [\<lparr>Severity = Error,
                           Summary = ''Expected MTU value to be integer or '' @ [CHR 0x27] @ ''auto''
                             @ [CHR 0x27],
                           Detail = ''''\<rparr>]
      | (mtu, None) \<Rightarrow> if sint mtu < 0 \<or> 65535 < sint mtu
          then Inr [\<lparr>Severity = Error,
                           Summary = ''Expected MTU value to be in the range (0 - 65535), got '' @ v,
                           Detail = ''''\<rparr>]
          else Inr [])"
  by (simp add: PropMtuRw_ValidateDiagFunc_def word_sless_alt split: prod.splits option.splits)

text \<open>
  C2. The validator of \<open>PropMtuRw\<close> returns no diagnostics on a string \<open>v\<close> exactly
  when \<open>v\<close> is \<open>auto\<close> or \<open>ParseInt\<close> (base 0, 64 bits) reads \<open>v\<close> as an integer from
  0 to 65535; on every other string it returns one diagnostic of severity Error. 70000 is
  refused, \<open>auto\<close> and 1500 are accepted.
\<close>

theorem PropMtuRw_accepts_iff:
  "(PropMtuRw_ValidateDiagFunc (VString v) path = Inr [] \<longleftrightarrow>
      v = ''auto'' \<or> (\<exists>n. ParseInt v 0 64 = (n, None) \<and> 0 \<le> sint n \<and> sint n \<le> 65535))
   \<and> (PropMtuRw_ValidateDiagFunc (VString v) path = Inr []
        \<or> (\<exists>msg. PropMtuRw_ValidateDiagFunc (VString v) path
              = Inr [\<lparr>Severity = Error, Summary = msg, Detail = ''''\<rparr>]))
   \<and> ValidateDiagFunc PropMtuRw = Some PropMtuRw_ValidateDiagFunc
   \<and> PropMtuRw_ValidateDiagFunc (VString ''70000'') path
        = Inr [\<lparr>Severity = Error,
                Summary = ''Expected MTU value to be in the range (0 - 65535), got 70000'',
                Detail = ''''\<rparr>]
   \<and> PropMtuRw_ValidateDiagFunc (VString ''auto'') path = Inr []
   \<and> PropMtuRw_ValidateDiagFunc (VString ''1500'') path = Inr []"
proof (intro conjI)
  show "PropMtuRw_ValidateDiagFunc (VString v) path = Inr [] \<longleftrightarrow>
      v = ''auto'' \<or> (\<exists>n. ParseInt v 0 64 = (n, None) \<and> 0 \<le> sint n \<and> sint n \<le> 65535)"
    unfolding mtu_cases by (auto split: prod.splits option.splits)
  show "PropMtuRw_ValidateDiagFunc (VString v) path = Inr []
        \<or> (\<exists>msg. PropMtuRw_ValidateDiagFunc (VString v) path
              = Inr [\<lparr>Severity = Error, Summary = msg, Detail = ''''\<rparr>])"
    unfolding mtu_cases by (auto split: prod.splits option.splits)
  show "ValidateDiagFunc PropMtuRw = Some PropMtuRw_ValidateDiagFunc"
    by (simp add: PropMtuRw_def)
  show "PropMtuRw_ValidateDiagFunc (VString ''70000'') path
        = Inr [\<lparr>Severity = Error,
                Summary = ''Expected MTU value to be in the range (0 - 65535), got 70000'',
                Detail = ''''\<rparr>]"
    by code_simp
  show "PropMtuRw_ValidateDiagFunc (VString ''auto'') path = Inr []"
    by code_simp
  show "PropMtuRw_ValidateDiagFunc (VString ''1500'') path = Inr []"
    by code_simp
qed

theorem PropMtuRw_accepts_iff_witness:
  "PropMtuRw_ValidateDiagFunc (VString ''65535'') [] = Inr []
   \<and> (\<exists>n. ParseInt ''65535'' 0 64 = (n, None) \<and> 0 \<le> sint n \<and> sint n \<le> 65535)
   \<and> PropMtuRw_ValidateDiagFunc (VString ''65536'') [] \<noteq> Inr []
   \<and> \<not> (\<exists>n. ParseInt ''65536'' 0 64 = (n, None) \<and> 0 \<le> sint n \<and> sint n \<le> 65535)"
proof -
  have a: "PropMtuRw_ValidateDiagFunc (VString ''65535'') [] = Inr []"
    by code_simp
  have b: "PropMtuRw_ValidateDiagFunc (VString ''65536'') [] \<noteq> Inr []"
    by code_simp
  show ?thesis
    using a b PropMtuRw_accepts_iff [of "''65535''" "[]"] PropMtuRw_accepts_iff [of "''65536''" "[]"]
    by simp
qed

text \<open>
  C10. The value is parsed with base 0, so spellings of an integer in range that are not
  decimal are accepted too: \<open>0x5DC\<close> is 1500 and \<open>0b111\<close> is 7, and the validator
  returns no diagnostics on either.
\<close>

theorem PropMtuRw_accepts_other_bases:
  "PropMtuRw_ValidateDiagFunc (VString ''0x5DC'') path = Inr []
   \<and> PropMtuRw_ValidateDiagFunc (VString ''0b111'') path = Inr []
   \<and> ParseInt ''0x5DC'' 0 64 = (1500, None)
   \<and> ParseInt ''0b111'' 0 64 = (7, None)
   \<and> ParseInt ''1500'' 0 64 = (1500, None)"
  by (intro conjI; code_simp)

text \<open>
  C4, as the claim states it, fails: \<open>abc\<close> is neither \<open>auto\<close> nor an integer, and the
  diagnostic that the validator returns on it has a fixed summary, which does not contain
  \<open>abc\<close>, and an empty detail.
\<close>

theorem PropMtuRw_names_value_counterexample:
  "''abc'' \<noteq> ''auto''
   \<and> ParseInt ''abc'' 0 64 = (0, Some \<lparr>Func = ''ParseInt'', Num = ''abc'', Err = ErrSyntax\<rparr>)
   \<and> PropMtuRw_ValidateDiagFunc (VString ''abc'') []
        = Inr [\<lparr>Severity = Error, Summary = ''Expected MTU value to be integer or '' @ [CHR 0x27]
                  @ ''auto'' @ [CHR 0x27], Detail = ''''\<rparr>]
   \<and> \<not> sublist ''abc'' (''Expected MTU value to be integer or '' @ [CHR 0x27] @ ''auto''
          @ [CHR 0x27])
   \<and> \<not> sublist ''abc'' ''''"
  by (intro conjI; code_simp)

text \<open>
  C4, amended. On a string other than \<open>auto\<close> that \<open>ParseInt\<close> reads as an integer
  below 0 or above 65535, the validator returns one Error diagnostic whose summary ends
  with the string itself; on a string that \<open>ParseInt\<close> does not read, the diagnostic is
  the fixed text \<open>Expected MTU value to be integer or 'auto'\<close>.
\<close>

theorem PropMtuRw_error_text:
  "v \<noteq> ''auto'' \<Longrightarrow>
   (case ParseInt v 0 64 of
      (n, None) \<Rightarrow>
        sint n < 0 \<or> 65535 < sint n \<longrightarrow>
          (\<exists>d. PropMtuRw_ValidateDiagFunc (VString v) path = Inr [d] \<and> Severity d = Error
             \<and> sublist v (Summary d)
             \<and> Summary d = ''Expected MTU value to be in the range (0 - 65535), got '' @ v)
    | (n, Some e) \<Rightarrow>
        PropMtuRw_ValidateDiagFunc (VString v) path
          = Inr [\<lparr>Severity = Error, Summary = ''Expected MTU value to be integer or ''
                    @ [CHR 0x27] @ ''auto'' @ [CHR 0x27], Detail = ''''\<rparr>])"
proof (cases "ParseInt v 0 64")
  case (Pair n err)
  assume v: "v \<noteq> ''auto''"
  show ?thesis
  proof (cases err)
    case None
    let ?d = "\<lparr>Severity = Error,
               Summary = ''Expected MTU value to be in the range (0 - 65535), got '' @ v,
               Detail = ''''\<rparr>"
    have "\<exists>d. PropMtuRw_ValidateDiagFunc (VString v) path = Inr [d] \<and> Severity d = Error
             \<and> sublist v (Summary d)
             \<and> Summary d = ''Expected MTU value to be in the range (0 - 65535), got '' @ v"
      if r: "sint n < 0 \<or> 65535 < sint n"
    proof (intro exI [of _ ?d] conjI)
      show "PropMtuRw_ValidateDiagFunc (VString v) path = Inr [?d]"
        using v r Pair None by (simp add: mtu_cases)
      show "Severity ?d = Error"
        by simp
      show "sublist v (Summary ?d)"
        unfolding Diagnostic.select_convs by (rule sublist_append_leftI)
      show "Summary ?d = ''Expected MTU value to be in the range (0 - 65535), got '' @ v"
        unfolding Diagnostic.select_convs by (rule refl)
    qed
    then show ?thesis
      using Pair None by simp
  next
    case (Some e)
    then show ?thesis
      using v Pair by (simp add: mtu_cases)
  qed
qed

theorem PropMtuRw_error_text_witness:
  "''70000'' \<noteq> ''auto'' \<and> ParseInt ''70000'' 0 64 = (70000, None)
   \<and> 65535 < sint (70000 :: int64)
   \<and> (\<exists>d. PropMtuRw_ValidateDiagFunc (VString ''70000'') [] = Inr [d] \<and> Severity d = Error
         \<and> sublist ''70000'' (Summary d))"
proof -
  have a: "ParseInt ''70000'' 0 64 = (70000, None)"
    by code_simp
  have b: "''70000'' \<noteq> ''auto''"
    by simp
  show ?thesis
    using a PropMtuRw_error_text [OF b, of "[]"] by auto
qed

section \<open>The validators of time values\<close>

text \<open>Positions reached by one round of \<open>+\<close>, and by one round more.\<close>

lemma iter_plus_first: "j \<in> set (f i) \<Longrightarrow> j \<in> set (iter_plus f n i)"
  by (cases n) auto

lemma iter_plus_next:
  "j \<in> set (f i) \<Longrightarrow> k \<in> set (iter_plus f n j) \<Longrightarrow> k \<in> set (iter_plus f (Suc n) i)"
  by auto

text \<open>
  A text made of pieces, each of which the pattern \<open>r\<close> matches wherever it stands, is
  matched by \<open>r+\<close>, given one round for each piece.
\<close>

lemma iter_plus_pieces:
  assumes "\<forall>x \<in> set xs. \<forall>pre post. length pre + length x \<in> set (ends r (pre @ x @ post) (length pre))"
    and "xs \<noteq> []" and "length xs \<le> Suc n"
  shows "length pre + length (concat xs)
    \<in> set (iter_plus (ends r (pre @ concat xs @ post)) n (length pre))"
  using assms
proof (induction xs arbitrary: pre n)
  case Nil
  then show ?case by simp
next
  case (Cons x xs)
  have x: "length pre + length x \<in> set (ends r (pre @ x @ (concat xs @ post)) (length pre))"
    using Cons.prems(1) by simp
  show ?case
  proof (cases "xs = []")
    case True
    then show ?thesis
      using x by (simp add: iter_plus_first)
  next
    case False
    then obtain n' where n: "n = Suc n'"
      using Cons.prems(3) by (cases n) auto
    have "length (pre @ x) + length (concat xs)
        \<in> set (iter_plus (ends r ((pre @ x) @ concat xs @ post)) n' (length (pre @ x)))"
      using Cons.prems False n by (intro Cons.IH) auto
    then show ?thesis
      using x n iter_plus_next [of "length pre + length x" "ends r (pre @ x @ concat xs @ post)"
          "length pre" "length pre + length x + length (concat xs)" n']
      by (simp add: add.assoc)
  qed
qed

text \<open>The pieces of a token: its digits, a literal unit, the token itself.\<close>

lemma ends_digits:
  assumes "ds \<noteq> []" and "list_all is_digit ds"
  shows "length pre + length ds \<in> set (ends (Plus digit) (pre @ ds @ post) (length pre))"
proof -
  let ?xs = "map (\<lambda>c. [c]) ds"
  have c: "concat ?xs = ds"
    by (induction ds) auto
  have "\<forall>x \<in> set ?xs. \<forall>pre post. length pre + length x
      \<in> set (ends digit (pre @ x @ post) (length pre))"
    using assms(2) by (auto simp: digit_def is_digit_def list_all_iff)
  moreover have "?xs \<noteq> []"
    using assms(1) by simp
  moreover have "length ?xs \<le> Suc (length (pre @ ds @ post))"
    by simp
  ultimately have "length pre + length (concat ?xs)
      \<in> set (iter_plus (ends digit (pre @ concat ?xs @ post)) (length (pre @ ds @ post)) (length pre))"
    by (rule iter_plus_pieces)
  then show ?thesis
    unfolding c by simp
qed

lemma ends_Lit: "length pre + length u \<in> set (ends (Lit u) (pre @ u @ post) (length pre))"
proof (induction u arbitrary: pre)
  case Nil
  then show ?case by (simp add: Lit_def)
next
  case (Cons c u)
  have "length (pre @ [c]) + length u \<in> set (ends (Lit u) ((pre @ [c]) @ u @ post) (length (pre @ [c])))"
    by (rule Cons.IH)
  then show ?case
    by (simp add: Lit_def)
qed

lemma ends_token:
  assumes "ds \<noteq> []" and "list_all is_digit ds"
    and "length (pre @ ds) + length u \<in> set (ends (Quest U) ((pre @ ds) @ u @ post) (length (pre @ ds)))"
  shows "length pre + length (ds @ u)
    \<in> set (ends (Seq (Plus digit) (Quest U)) (pre @ (ds @ u) @ post) (length pre))"
proof -
  have "length pre + length ds \<in> set (ends (Plus digit) (pre @ ds @ (u @ post)) (length pre))"
    using assms(1,2) by (rule ends_digits)
  then show ?thesis
    using assms(3) by (auto simp: add.assoc simp del: ends.simps(7))
qed

lemma ends_unit_ValidationTime:
  assumes "u = [] \<or> u \<in> set [''s'', ''m'', ''h'', ''d'', ''w'']"
  shows "length pre + length u \<in> set (ends (Quest (CharClass ''smhdw'')) (pre @ u @ post) (length pre))"
  using assms by auto

lemma ends_unit_ArpTimeout:
  assumes "u = [] \<or> u \<in> set [''ms'', ''s'', ''M'', ''h'', ''d'']"
  shows "length pre + length u
    \<in> set (ends (Quest (Alt (Lit ''ms'') (Alt (Lit ''s'') (Alt (Lit ''M'')
                     (Alt (Lit ''h'') (Lit ''d'')))))) (pre @ u @ post) (length pre))"
proof -
  have "u = [] \<or> length pre + length u \<in> set (ends (Lit u) (pre @ u @ post) (length pre))"
    by (simp add: ends_Lit)
  then show ?thesis
    using assms by auto
qed

text \<open>A text of tokens has at least as many characters as tokens.\<close>

lemma length_le_concat: "\<forall>x \<in> set xs. x \<noteq> [] \<Longrightarrow> length xs \<le> length (concat xs)"
proof (induction xs)
  case Nil
  then show ?case by simp
next
  case (Cons x xs)
  then have "Suc 0 \<le> length x" and "length xs \<le> length (concat xs)"
    by (auto simp: Suc_le_eq)
  then have "Suc (length xs) \<le> length x + length (concat xs)"
    by linarith
  then show ?case
    by simp
qed

lemma time_text_tokens:
  assumes "toks \<noteq> []"
    and "\<forall>t \<in> set toks. fst t \<noteq> [] \<and> list_all is_digit (fst t)
          \<and> (\<forall>pre post. length (pre @ fst t) + length (snd t)
               \<in> set (ends (Quest U) ((pre @ fst t) @ snd t @ post) (length (pre @ fst t))))"
  shows "length (time_text toks)
    \<in> set (ends (Plus (Seq (Plus digit) (Quest U))) (time_text toks) 0)"
proof -
  let ?xs = "map (\<lambda>t. fst t @ snd t) toks"
  have "\<forall>x \<in> set ?xs. \<forall>pre post. length pre + length x
      \<in> set (ends (Seq (Plus digit) (Quest U)) (pre @ x @ post) (length pre))"
  proof (intro ballI allI)
    fix x pre post
    assume "x \<in> set ?xs"
    then obtain t where t: "t \<in> set toks" and x: "x = fst t @ snd t"
      by auto
    have 1: "fst t \<noteq> []" and 2: "list_all is_digit (fst t)"
      and 3: "length (pre @ fst t) + length (snd t)
               \<in> set (ends (Quest U) ((pre @ fst t) @ snd t @ post) (length (pre @ fst t)))"
      using assms(2) t by blast+
    show "length pre + length x
        \<in> set (ends (Seq (Plus digit) (Quest U)) (pre @ x @ post) (length pre))"
      unfolding x using 1 2 3 by (rule ends_token)
  qed
  moreover have "?xs \<noteq> []"
    using assms(1) by simp
  moreover have "length ?xs \<le> Suc (length (time_text toks))"
  proof -
    have "\<forall>x \<in> set ?xs. x \<noteq> []"
      using assms(2) by auto
    then have "length ?xs \<le> length (concat ?xs)"
      by (rule length_le_concat)
    then show ?thesis
      by (simp add: time_text_def)
  qed
  ultimately have "length ([] :: string) + length (concat ?xs)
      \<in> set (iter_plus (ends (Seq (Plus digit) (Quest U)) ([] @ concat ?xs @ []))
            (length (time_text toks)) (length ([] :: string)))"
    by (rule iter_plus_pieces)
  then show ?thesis
    by (simp add: time_text_def)
qed

text \<open>A match that starts at the beginning of the text is a match.\<close>

lemma MatchString_at_0: "ends r s 0 \<noteq> [] \<Longrightarrow> MatchString r s"
  by (auto simp: MatchString_def list_ex_iff upt_conv_Cons simp del: upt_Suc)

text \<open>Both patterns match the texts of their tokens, from the first character to the last.\<close>

lemma ValidationTime_regexp_tokens:
  assumes "toks \<noteq> []" and "list_all (valid_time_token [''s'', ''m'', ''h'', ''d'', ''w'']) toks"
  shows "MatchString ValidationTime_regexp (time_text toks)"
proof -
  have "\<forall>t \<in> set toks. fst t \<noteq> [] \<and> list_all is_digit (fst t)
          \<and> (\<forall>pre post. length (pre @ fst t) + length (snd t)
               \<in> set (ends (Quest (CharClass ''smhdw'')) ((pre @ fst t) @ snd t @ post)
                    (length (pre @ fst t))))"
  proof (intro ballI conjI allI)
    fix t pre post
    assume "t \<in> set toks"
    then have t: "valid_time_token [''s'', ''m'', ''h'', ''d'', ''w''] t"
      using assms(2) by (simp add: list_all_iff)
    show "fst t \<noteq> []" and "list_all is_digit (fst t)"
      using t by (simp_all add: valid_time_token_def)
    have "snd t = [] \<or> snd t \<in> set [''s'', ''m'', ''h'', ''d'', ''w'']"
      using t by (simp add: valid_time_token_def)
    then show "length (pre @ fst t) + length (snd t)
        \<in> set (ends (Quest (CharClass ''smhdw'')) ((pre @ fst t) @ snd t @ post)
             (length (pre @ fst t)))"
      by (rule ends_unit_ValidationTime)
  qed
  with assms(1) have "length (time_text toks)
      \<in> set (ends (Plus (Seq (Plus digit) (Quest (CharClass ''smhdw'')))) (time_text toks) 0)"
    by (rule time_text_tokens)
  then have "length (time_text toks) \<in> set (ends ValidationTime_regexp (time_text toks) 0)"
    unfolding ValidationTime_regexp_def by (auto simp del: ends.simps(7))
  then have "ends ValidationTime_regexp (time_text toks) 0 \<noteq> []"
    by auto
  then show ?thesis
    by (rule MatchString_at_0)
qed

lemma ArpTimeout_regexp_tokens:
  assumes "toks \<noteq> []" and "list_all (valid_time_token [''ms'', ''s'', ''M'', ''h'', ''d'']) toks"
  shows "MatchString ArpTimeout_regexp (time_text toks)"
proof -
  let ?U = "Alt (Lit ''ms'') (Alt (Lit ''s'') (Alt (Lit ''M'') (Alt (Lit ''h'') (Lit ''d''))))"
  have "\<forall>t \<in> set toks. fst t \<noteq> [] \<and> list_all is_digit (fst t)
          \<and> (\<forall>pre post. length (pre @ fst t) + length (snd t)
               \<in> set (ends (Quest ?U) ((pre @ fst t) @ snd t @ post) (length (pre @ fst t))))"
  proof (intro ballI conjI allI)
    fix t pre post
    assume "t \<in> set toks"
    then have t: "valid_time_token [''ms'', ''s'', ''M'', ''h'', ''d''] t"
      using assms(2) by (simp add: list_all_iff)
    show "fst t \<noteq> []" and "list_all is_digit (fst t)"
      using t by (simp_all add: valid_time_token_def)
    have "snd t = [] \<or> snd t \<in> set [''ms'', ''s'', ''M'', ''h'', ''d'']"
      using t by (simp add: valid_time_token_def)
    then show "length (pre @ fst t) + length (snd t)
        \<in> set (ends (Quest ?U) ((pre @ fst t) @ snd t @ post) (length (pre @ fst t)))"
      by (rule ends_unit_ArpTimeout)
  qed
  with assms(1) have "length (time_text toks)
      \<in> set (ends (Plus (Seq (Plus digit) (Quest ?U))) (time_text toks) 0)"
    by (rule time_text_tokens)
  then have "length (time_text toks) \<in> set (ends ArpTimeout_regexp (time_text toks) 0)"
    unfolding ArpTimeout_regexp_def by (auto simp del: ends.simps(7))
  then have "ends ArpTimeout_regexp (time_text toks) 0 \<noteq> []"
    by auto
  then show ?thesis
    by (rule MatchString_at_0)
qed

text \<open>
  Conversely, \<open>ValidationTime\<close> accepts nothing else: every position that \<open>+\<close> reaches is
  reached by a chain of rounds, and every round of its pattern reads one token.
\<close>

lemma iter_plus_trancl:
  "j \<in> set (iter_plus f n i) \<Longrightarrow> (i, j) \<in> {(a, b). b \<in> set (f a)}\<^sup>+"
proof (induction n arbitrary: i)
  case 0
  then show ?case by auto
next
  case (Suc n)
  then consider "j \<in> set (f i)" | k where "k \<in> set (f i)" and "j \<in> set (iter_plus f n k)"
    by auto
  then show ?case
  proof cases
    case 1
    then show ?thesis by auto
  next
    case 2
    have "(i, k) \<in> {(a, b). b \<in> set (f a)}"
      using 2(1) by simp
    moreover have "(k, j) \<in> {(a, b). b \<in> set (f a)}\<^sup>+"
      using 2(2) by (rule Suc.IH)
    ultimately show ?thesis
      by (rule trancl_into_trancl2)
  qed
qed

lemma take_drop_split:
  assumes "i \<le> j" and "j \<le> k" and "k \<le> length s"
  shows "take (k - i) (drop i s) = take (j - i) (drop i s) @ take (k - j) (drop j s)"
proof -
  have "take (k - i) (drop i s) = take ((j - i) + (k - j)) (drop i s)"
    using assms by simp
  also have "\<dots> = take (j - i) (drop i s) @ take (k - j) (drop (j - i) (drop i s))"
    by (rule take_add)
  also have "drop (j - i) (drop i s) = drop j s"
    using assms by simp
  finally show ?thesis .
qed

lemma digits_run:
  assumes "(i, j) \<in> {(a, b). b \<in> set (ends digit s a)}\<^sup>+"
  shows "i < j \<and> j \<le> length s \<and> list_all is_digit (take (j - i) (drop i s))"
  using assms
proof (induction rule: trancl_induct)
  case (base j)
  then have "i < length s" and "is_digit (s ! i)" and "j = Suc i"
    by (auto simp: digit_def is_digit_def split: if_splits)
  then show ?case
    by (simp add: take_Suc_conv_app_nth hd_drop_conv_nth take_Suc)
next
  case (step j k)
  then have "j < length s" and "is_digit (s ! j)" and k: "k = Suc j"
    by (auto simp: digit_def is_digit_def split: if_splits)
  moreover have "take (k - i) (drop i s) = take (j - i) (drop i s) @ take (k - j) (drop j s)"
    using step.IH calculation by (intro take_drop_split) auto
  ultimately show ?case
    using step.IH by (simp add: take_Suc hd_drop_conv_nth)
qed

lemma token_ValidationTime:
  assumes "j \<in> set (ends (Seq (Plus digit) (Quest (CharClass ''smhdw''))) s i)"
  shows "i < j \<and> j \<le> length s
    \<and> (\<exists>t. valid_time_token [''s'', ''m'', ''h'', ''d'', ''w''] t
          \<and> take (j - i) (drop i s) = fst t @ snd t)"
proof -
  obtain m where m: "m \<in> set (ends (Plus digit) s i)"
    and j: "j \<in> set (ends (Quest (CharClass ''smhdw'')) s m)"
    using assms by (auto simp del: ends.simps(7))
  have "(i, m) \<in> {(a, b). b \<in> set (ends digit s a)}\<^sup>+"
    using m by (simp add: iter_plus_trancl)
  then have d: "i < m" "m \<le> length s" "list_all is_digit (take (m - i) (drop i s))"
    using digits_run by blast+
  consider "j = m" | "m < length s" and "s ! m \<in> set ''smhdw''" and "j = Suc m"
    using j by (auto split: if_splits)
  then show ?thesis
  proof cases
    case 1
    have "valid_time_token [''s'', ''m'', ''h'', ''d'', ''w''] (take (m - i) (drop i s), [])"
      using d by (simp add: valid_time_token_def)
    then show ?thesis
      using 1 d by (intro conjI exI [of _ "(take (m - i) (drop i s), [])"]) simp_all
  next
    case 2
    have s: "take (j - i) (drop i s) = take (m - i) (drop i s) @ take (j - m) (drop m s)"
      using d 2 by (intro take_drop_split) auto
    have u: "take (j - m) (drop m s) = [s ! m]"
      using 2 by (simp add: take_Suc hd_drop_conv_nth)
    have "valid_time_token [''s'', ''m'', ''h'', ''d'', ''w''] (take (m - i) (drop i s), [s ! m])"
      using d 2 by (auto simp: valid_time_token_def)
    then show ?thesis
      using 2 d s u by (intro conjI exI [of _ "(take (m - i) (drop i s), [s ! m])"]) simp_all
  qed
qed

lemma tokens_run:
  assumes "(i, j) \<in> {(a, b). b \<in> set (ends (Seq (Plus digit) (Quest (CharClass ''smhdw''))) s a)}\<^sup>+"
  shows "i < j \<and> j \<le> length s
    \<and> (\<exists>toks. toks \<noteq> [] \<and> list_all (valid_time_token [''s'', ''m'', ''h'', ''d'', ''w'']) toks
          \<and> take (j - i) (drop i s) = time_text toks)"
  using assms
proof (induction rule: trancl_induct)
  case (base j)
  then have "j \<in> set (ends (Seq (Plus digit) (Quest (CharClass ''smhdw''))) s i)"
    by simp
  then obtain t where "i < j" "j \<le> length s"
    "valid_time_token [''s'', ''m'', ''h'', ''d'', ''w''] t" "take (j - i) (drop i s) = fst t @ snd t"
    using token_ValidationTime by blast
  then show ?case
    by (intro conjI exI [of _ "[t]"]) (simp_all add: time_text_def)
next
  case (step j k)
  then have "k \<in> set (ends (Seq (Plus digit) (Quest (CharClass ''smhdw''))) s j)"
    by simp
  then obtain t where t: "j < k" "k \<le> length s"
    "valid_time_token [''s'', ''m'', ''h'', ''d'', ''w''] t" "take (k - j) (drop j s) = fst t @ snd t"
    using token_ValidationTime by blast
  obtain toks where toks: "i < j" "toks \<noteq> []"
    "list_all (valid_time_token [''s'', ''m'', ''h'', ''d'', ''w'']) toks"
    "take (j - i) (drop i s) = time_text toks"
    using step.IH by blast
  have "take (k - i) (drop i s) = take (j - i) (drop i s) @ take (k - j) (drop j s)"
    using t toks by (intro take_drop_split) auto
  then have "take (k - i) (drop i s) = time_text (toks @ [t])"
    using t toks by (simp add: time_text_def)
  then show ?case
    using t toks by (intro conjI exI [of _ "toks @ [t]"]) simp_all
qed

lemma ValidationTime_regexp_only_tokens:
  assumes "MatchString ValidationTime_regexp s"
  shows "\<exists>toks. toks \<noteq> [] \<and> list_all (valid_time_token [''s'', ''m'', ''h'', ''d'', ''w'']) toks
    \<and> s = time_text toks"
proof -
  obtain i where "ends ValidationTime_regexp s i \<noteq> []"
    using assms by (auto simp: MatchString_def list_ex_iff)
  then obtain j where "j \<in> set (ends ValidationTime_regexp s i)"
    by (cases "ends ValidationTime_regexp s i") auto
  then have "length s \<in> set (ends (Plus (Seq (Plus digit) (Quest (CharClass ''smhdw'')))) s 0)"
    unfolding ValidationTime_regexp_def by (auto simp del: ends.simps(7) split: if_splits)
  then have "length s
      \<in> set (iter_plus (ends (Seq (Plus digit) (Quest (CharClass ''smhdw''))) s) (length s) 0)"
    by (simp only: ends.simps(7))
  then have "(0, length s)
      \<in> {(a, b). b \<in> set (ends (Seq (Plus digit) (Quest (CharClass ''smhdw''))) s a)}\<^sup>+"
    by (rule iter_plus_trancl)
  then show ?thesis
    using tokens_run [of 0 "length s" s] by simp
qed

lemma ValidationTime_accepts_iff:
  "ValidationTime (VString s) k = ([], []) \<longleftrightarrow>
     (\<exists>toks. toks \<noteq> [] \<and> list_all (valid_time_token [''s'', ''m'', ''h'', ''d'', ''w'']) toks
        \<and> s = time_text toks)"
proof
  assume "ValidationTime (VString s) k = ([], [])"
  then have "MatchString ValidationTime_regexp s"
    by (simp add: ValidationTime_def StringMatch_def split: if_splits)
  then show "\<exists>toks. toks \<noteq> [] \<and> list_all (valid_time_token [''s'', ''m'', ''h'', ''d'', ''w'']) toks
      \<and> s = time_text toks"
    by (rule ValidationTime_regexp_only_tokens)
next
  assume "\<exists>toks. toks \<noteq> [] \<and> list_all (valid_time_token [''s'', ''m'', ''h'', ''d'', ''w'']) toks
      \<and> s = time_text toks"
  then have "MatchString ValidationTime_regexp s"
    using ValidationTime_regexp_tokens by blast
  then show "ValidationTime (VString s) k = ([], [])"
    by (simp add: ValidationTime_def StringMatch_def)
qed

text \<open>
  C3, as the claim states it, fails: \<open>10ms\<close> and \<open>5M\<close> are single tokens with a unit
  among ms, s, M, h, d and w, and \<open>ValidationTime\<close> refuses both.
\<close>

theorem ValidationTime_units_counterexample:
  "valid_time_token [''ms'', ''s'', ''M'', ''h'', ''d'', ''w''] (''10'', ''ms'')
   \<and> time_text [(''10'', ''ms'')] = ''10ms''
   \<and> ValidationTime (VString ''10ms'') ''interval''
       = ([], [InvalidValue ''interval'' ''value must be integer[/time],integer 0..4294967295''])
   \<and> valid_time_token [''ms'', ''s'', ''M'', ''h'', ''d'', ''w''] (''5'', ''M'')
   \<and> time_text [(''5'', ''M'')] = ''5M''
   \<and> ValidationTime (VString ''5M'') ''interval''
       = ([], [InvalidValue ''interval'' ''value must be integer[/time],integer 0..4294967295''])"
  by (intro conjI; code_simp)

text \<open>
  C3, amended. Each validator accepts the texts of one or more tokens with its own units,
  the unit being optional: \<open>ValidationTime\<close> with the units s, m, h, d and w, as in
  \<open>1w2d\<close>; the validator of \<open>PropArpTimeoutRw\<close> with the units ms, s, M, h and d, as in
  \<open>10ms\<close> and \<open>5M\<close>.
\<close>

theorem time_validators_accept_tokens:
  "(toks \<noteq> [] \<and> list_all (valid_time_token [''s'', ''m'', ''h'', ''d'', ''w'']) toks
      \<longrightarrow> ValidationTime (VString (time_text toks)) k = ([], []))
   \<and> (toks \<noteq> [] \<and> list_all (valid_time_token [''ms'', ''s'', ''M'', ''h'', ''d'']) toks
      \<longrightarrow> PropArpTimeoutRw_ValidateFunc (VString (time_text toks)) k = ([], []))
   \<and> ValidateFunc PropArpTimeoutRw = Some PropArpTimeoutRw_ValidateFunc
   \<and> ValidationTime (VString ''1w2d'') k = ([], [])
   \<and> PropArpTimeoutRw_ValidateFunc (VString ''10ms'') k = ([], [])
   \<and> PropArpTimeoutRw_ValidateFunc (VString ''5M'') k = ([], [])"
proof (intro conjI impI)
  assume "toks \<noteq> [] \<and> list_all (valid_time_token [''s'', ''m'', ''h'', ''d'', ''w'']) toks"
  then have "MatchString ValidationTime_regexp (time_text toks)"
    using ValidationTime_regexp_tokens by blast
  then show "ValidationTime (VString (time_text toks)) k = ([], [])"
    by (simp add: ValidationTime_def StringMatch_def)
next
  assume "toks \<noteq> [] \<and> list_all (valid_time_token [''ms'', ''s'', ''M'', ''h'', ''d'']) toks"
  then have "MatchString ArpTimeout_regexp (time_text toks)"
    using ArpTimeout_regexp_tokens by blast
  then show "PropArpTimeoutRw_ValidateFunc (VString (time_text toks)) k = ([], [])"
    by (simp add: PropArpTimeoutRw_ValidateFunc_def StringMatch_def)
next
  show "ValidateFunc PropArpTimeoutRw = Some PropArpTimeoutRw_ValidateFunc"
    by (simp add: PropArpTimeoutRw_def)
  show "ValidationTime (VString ''1w2d'') k = ([], [])"
    by code_simp
  show "PropArpTimeoutRw_ValidateFunc (VString ''10ms'') k = ([], [])"
    by code_simp
  show "PropArpTimeoutRw_ValidateFunc (VString ''5M'') k = ([], [])"
    by code_simp
qed

theorem time_validators_accept_tokens_witness:
  "list_all (valid_time_token [''s'', ''m'', ''h'', ''d'', ''w'']) [(''1'', ''w''), (''2'', ''d''), (''30'', [])]
   \<and> time_text [(''1'', ''w''), (''2'', ''d''), (''30'', [])] = ''1w2d30''
   \<and> ValidationTime (VString ''1w2d30'') ''interval'' = ([], [])
   \<and> list_all (valid_time_token [''ms'', ''s'', ''M'', ''h'', ''d'']) [(''5'', ''M''), (''10'', ''ms'')]
   \<and> time_text [(''5'', ''M''), (''10'', ''ms'')] = ''5M10ms''
   \<and> PropArpTimeoutRw_ValidateFunc (VString ''5M10ms'') ''arp_timeout'' = ([], [])"
proof -
  have a: "list_all (valid_time_token [''s'', ''m'', ''h'', ''d'', ''w''])
      [(''1'', ''w''), (''2'', ''d''), (''30'', [])]"
    by code_simp
  have b: "time_text [(''1'', ''w''), (''2'', ''d''), (''30'', [])] = ''1w2d30''"
    by code_simp
  have c: "list_all (valid_time_token [''ms'', ''s'', ''M'', ''h'', ''d''])
      [(''5'', ''M''), (''10'', ''ms'')]"
    by code_simp
  have e: "time_text [(''5'', ''M''), (''10'', ''ms'')] = ''5M10ms''"
    by code_simp
  have f: "ValidationTime (VString ''1w2d30'') ''interval'' = ([], [])"
    using a b time_validators_accept_tokens
      [where toks = "[(''1'', ''w''), (''2'', ''d''), (''30'', [])]" and k = "''interval''"]
    by simp
  have g: "PropArpTimeoutRw_ValidateFunc (VString ''5M10ms'') ''arp_timeout'' = ([], [])"
    using c e time_validators_accept_tokens
      [where toks = "[(''5'', ''M''), (''10'', ''ms'')]" and k = "''arp_timeout''"]
    by simp
  show ?thesis
    using a b c e f g by blast
qed

section \<open>The diff-suppressors\<close>

text \<open>
  C7. On two non-empty strings that \<open>ParseInt\<close> (base 0, 64 bits) both reads,
  \<open>HexEqual\<close> returns whether the two integers are equal, whatever their spelling:
  true on \<open>0x10\<close> and \<open>16\<close>, false on \<open>0x10\<close> and \<open>17\<close>.
\<close>

theorem HexEqual_numeric:
  "(a \<noteq> [] \<and> b \<noteq> [] \<and> ParseInt a 0 64 = (x, None) \<and> ParseInt b 0 64 = (y, None)
      \<longrightarrow> HexEqual k a b d = Inr (x = y))
   \<and> HexEqual k ''0x10'' ''16'' d = Inr True
   \<and> HexEqual k ''0x10'' ''17'' d = Inr False"
proof (intro conjI impI)
  assume "a \<noteq> [] \<and> b \<noteq> [] \<and> ParseInt a 0 64 = (x, None) \<and> ParseInt b 0 64 = (y, None)"
  then show "HexEqual k a b d = Inr (x = y)"
    by (auto simp: HexEqual_def)
next
  show "HexEqual k ''0x10'' ''16'' d = Inr True"
    by code_simp
  show "HexEqual k ''0x10'' ''17'' d = Inr False"
    by code_simp
qed

theorem HexEqual_numeric_witness:
  "''0x10'' \<noteq> [] \<and> ''020'' \<noteq> [] \<and> ParseInt ''0x10'' 0 64 = (16, None)
   \<and> ParseInt ''020'' 0 64 = (16, None) \<and> HexEqual ''k'' ''0x10'' ''020'' None = Inr True"
proof -
  have a: "ParseInt ''0x10'' 0 64 = (16, None)"
    by code_simp
  have b: "ParseInt ''020'' 0 64 = (16, None)"
    by code_simp
  show ?thesis
    using a b HexEqual_numeric [of "''0x10''" "''020''" 16 16 "''k''" None] by simp
qed

text \<open>
  C6. \<open>TimeEquall\<close> and \<open>HexEqual\<close> return, and do not panic, when the old and the
  new text are equal, when one of them is empty, and when both parse (as a duration, for
  whatever \<open>ParseDuration\<close> is; with \<open>ParseInt\<close>, base 0). A panic therefore means that
  both texts are non-empty, that they differ and that one of them does not parse.
\<close>

theorem suppressors_panic_only_on_parse_failure:
  "(old = new \<or> old = [] \<or> new = [] \<or> (snd (pd old) = None \<and> snd (pd new) = None)
      \<longrightarrow> (\<exists>b. TimeEquall pd k old new d = Inr b))
   \<and> ((\<exists>p. TimeEquall pd k old new d = Inl p)
      \<longrightarrow> old \<noteq> new \<and> old \<noteq> [] \<and> new \<noteq> [] \<and> (snd (pd old) \<noteq> None \<or> snd (pd new) \<noteq> None))
   \<and> (old = new \<or> old = [] \<or> new = []
        \<or> (snd (ParseInt old 0 64) = None \<and> snd (ParseInt new 0 64) = None)
      \<longrightarrow> (\<exists>b. HexEqual k old new d = Inr b))
   \<and> ((\<exists>p. HexEqual k old new d = Inl p)
      \<longrightarrow> old \<noteq> new \<and> old \<noteq> [] \<and> new \<noteq> []
          \<and> (snd (ParseInt old 0 64) \<noteq> None \<or> snd (ParseInt new 0 64) \<noteq> None))"
proof (intro conjI)
  show "old = new \<or> old = [] \<or> new = [] \<or> (snd (pd old) = None \<and> snd (pd new) = None)
      \<longrightarrow> (\<exists>b. TimeEquall pd k old new d = Inr b)"
    by (auto simp: TimeEquall_def split: prod.splits option.splits)
  show "(\<exists>p. TimeEquall pd k old new d = Inl p)
      \<longrightarrow> old \<noteq> new \<and> old \<noteq> [] \<and> new \<noteq> [] \<and> (snd (pd old) \<noteq> None \<or> snd (pd new) \<noteq> None)"
    by (auto simp: TimeEquall_def split: prod.splits option.splits if_splits)
  show "old = new \<or> old = [] \<or> new = []
        \<or> (snd (ParseInt old 0 64) = None \<and> snd (ParseInt new 0 64) = None)
      \<longrightarrow> (\<exists>b. HexEqual k old new d = Inr b)"
    by (auto simp: HexEqual_def split: prod.splits option.splits)
  show "(\<exists>p. HexEqual k old new d = Inl p)
      \<longrightarrow> old \<noteq> new \<and> old \<noteq> [] \<and> new \<noteq> []
          \<and> (snd (ParseInt old 0 64) \<noteq> None \<or> snd (ParseInt new 0 64) \<noteq> None)"
    by (auto simp: HexEqual_def split: prod.splits option.splits if_splits)
qed

theorem suppressors_panic_only_on_parse_failure_witness:
  "(snd (ParseDuration ''1h'') = None \<and> snd (ParseDuration ''90M'') = None)
   \<and> (\<exists>b. TimeEquall ParseDuration ''k'' ''1h'' ''90M'' None = Inr b)
   \<and> (\<exists>p. TimeEquall ParseDuration ''k'' ''1h'' ''soon'' None = Inl p)
   \<and> snd (ParseDuration ''soon'') \<noteq> None
   \<and> (snd (ParseInt ''0x10'' 0 64) = None \<and> snd (ParseInt ''16'' 0 64) = None)
   \<and> (\<exists>b. HexEqual ''k'' ''0x10'' ''16'' None = Inr b)
   \<and> (\<exists>p. HexEqual ''k'' ''0x10'' ''0xZZ'' None = Inl p)
   \<and> snd (ParseInt ''0xZZ'' 0 64) \<noteq> None"
proof -
  have a: "snd (ParseDuration ''1h'') = None" "snd (ParseDuration ''90M'') = None"
    by code_simp+
  have b: "TimeEquall ParseDuration ''k'' ''1h'' ''soon'' None
      = Inl (ErrorPanic (''[TimeEquall] parse '' @ [CHR 0x27] @ ''new'' @ [CHR 0x27]
                @ '' duration error: '') (InvalidDuration ''soon''))"
    by code_simp
  have c: "snd (ParseInt ''0x10'' 0 64) = None" "snd (ParseInt ''16'' 0 64) = None"
    by code_simp+
  have e: "HexEqual ''k'' ''0x10'' ''0xZZ'' None
      = Inl (ErrorPanic (''[HexEqual] '' @ [CHR 0x27] @ ''new'' @ [CHR 0x27]
                @ '' number parse error: '')
               \<lparr>Func = ''ParseInt'', Num = ''0xZZ'', Err = ErrSyntax\<rparr>)"
    by code_simp
  have f: "snd (ParseInt ''0x10'' 0 64) = None"
    by code_simp
  show ?thesis
    using a b c e f
      suppressors_panic_only_on_parse_failure
        [where old = "''1h''" and new = "''90M''" and pd = ParseDuration and k = "''k''"
           and d = None]
      suppressors_panic_only_on_parse_failure
        [where old = "''1h''" and new = "''soon''" and pd = ParseDuration and k = "''k''"
           and d = None]
      suppressors_panic_only_on_parse_failure
        [where old = "''0x10''" and new = "''16''" and pd = ParseDuration and k = "''k''"
           and d = None]
      suppressors_panic_only_on_parse_failure
        [where old = "''0x10''" and new = "''0xZZ''" and pd = ParseDuration and k = "''k''"
           and d = None]
    by simp
qed

text \<open>
  C9. Both suppressors return true on a text and itself, and where both orders of two
  texts return, they return the same boolean.
\<close>

theorem suppressors_reflexive_symmetric:
  "TimeEquall pd k a a d = Inr True
   \<and> HexEqual k a a d = Inr True
   \<and> (TimeEquall pd k a b d = Inr x \<and> TimeEquall pd k b a d = Inr y \<longrightarrow> x = y)
   \<and> (HexEqual k a b d = Inr x' \<and> HexEqual k b a d = Inr y' \<longrightarrow> x' = y')"
proof (intro conjI)
  show "TimeEquall pd k a a d = Inr True"
    by (simp add: TimeEquall_def)
  show "HexEqual k a a d = Inr True"
    by (simp add: HexEqual_def)
  show "TimeEquall pd k a b d = Inr x \<and> TimeEquall pd k b a d = Inr y \<longrightarrow> x = y"
    by (auto simp: TimeEquall_def split: prod.splits option.splits if_splits)
  show "HexEqual k a b d = Inr x' \<and> HexEqual k b a d = Inr y' \<longrightarrow> x' = y'"
    by (auto simp: HexEqual_def split: prod.splits option.splits if_splits)
qed

theorem suppressors_reflexive_symmetric_witness:
  "TimeEquall ParseDuration ''k'' ''1h'' ''60M'' None = Inr True
   \<and> TimeEquall ParseDuration ''k'' ''60M'' ''1h'' None = Inr True
   \<and> HexEqual ''k'' ''0x10'' ''17'' None = Inr False
   \<and> HexEqual ''k'' ''17'' ''0x10'' None = Inr False"
proof -
  have a: "TimeEquall ParseDuration ''k'' ''1h'' ''60M'' None = Inr True"
    by code_simp
  have b: "\<exists>y. TimeEquall ParseDuration ''k'' ''60M'' ''1h'' None = Inr y"
    by code_simp
  have c: "HexEqual ''k'' ''0x10'' ''17'' None = Inr False"
    by code_simp
  have e: "\<exists>y. HexEqual ''k'' ''17'' ''0x10'' None = Inr y"
    by code_simp
  from b obtain y where y: "TimeEquall ParseDuration ''k'' ''60M'' ''1h'' None = Inr y" ..
  from e obtain y' where y': "HexEqual ''k'' ''17'' ''0x10'' None = Inr y'" ..
  show ?thesis
    using a c y y'
      suppressors_reflexive_symmetric
        [where pd = ParseDuration and k = "''k''" and d = None and a = "''1h''"
           and b = "''60M''" and x = True and y = y]
      suppressors_reflexive_symmetric
        [where pd = ParseDuration and k = "''k''" and d = None and a = "''0x10''"
           and b = "''17''" and x' = False and y' = y']
    by simp
qed

subsection \<open>Seconds() on whole milliseconds\<close>

text \<open>
  Rounding to \<open>float64\<close> moves a number by at most half a unit in the last place, and
  leaves an integer below \<open>2 ^ 53\<close> as it is.
\<close>

lemma round_half_even_error: "\<bar>of_int (round_half_even y) - y\<bar> \<le> 1 / 2"
proof -
  have "of_int \<lfloor>y\<rfloor> \<le> y" and "y < of_int \<lfloor>y\<rfloor> + 1"
    by linarith+
  then show ?thesis
    unfolding round_half_even_def Let_def by (auto simp: abs_le_iff)
qed

lemma round_half_even_of_int: "round_half_even (of_int z) = z"
  by (simp add: round_half_even_def)

lemma binade_lower: 
  assumes "x \<noteq> 0"
  shows "2 powi (binade x) \<le> \<bar>x\<bar>"
proof -
  obtain p q where pq: "quotient_of \<bar>x\<bar> = (p, q)"
    by (cases "quotient_of \<bar>x\<bar>")
  have q: "0 < q"
    using pq quotient_of_denom_pos by blast
  have x: "\<bar>x\<bar> = of_int p / of_int q"
    using pq quotient_of_div by blast
  have p: "0 < p"
  proof -
    have "0 < \<bar>x\<bar>" using assms by simp
    then have "0 < (of_int p :: rat) / of_int q" using x by simp
    then show ?thesis using q by (simp add: zero_less_divide_iff)
  qed
  let ?e = "bitlen p - bitlen q"
  have "2 powi (?e - 1) \<le> \<bar>x\<bar>"
  proof -
    have bp: "2 ^ nat (bitlen p - 1) \<le> p" and bq: "q < 2 ^ nat (bitlen q)"
      using bitlen_bounds [OF p] bitlen_bounds [OF q] by auto
    have p1: "1 \<le> bitlen p"
      using p by (simp add: bitlen_alt_def) 
    have q1: "0 \<le> bitlen q"
      by (rule bitlen_nonneg)
    have a: "(2::rat) powi (bitlen p - 1) \<le> of_int p"
    proof -
      have "(2::rat) powi (bitlen p - 1) = 2 ^ nat (bitlen p - 1)"
        using p1 by (simp add: power_int_def)
      also have "\<dots> = of_int (2 ^ nat (bitlen p - 1))"
        by simp
      also have "\<dots> \<le> of_int p"
        using bp by (simp only: of_int_le_iff)
      finally show ?thesis .
    qed
    have b: "of_int q \<le> (2::rat) powi (bitlen q)"
    proof -
      have "(of_int q :: rat) \<le> of_int (2 ^ nat (bitlen q))"
        using bq by (simp only: of_int_le_iff less_imp_le)
      also have "\<dots> = 2 powi (bitlen q)"
        using q1 by (simp add: power_int_def)
      finally show ?thesis .
    qed
    have c: "(2::rat) powi (?e - 1) = 2 powi (bitlen p - 1) / 2 powi (bitlen q)"
    proof -
      have "(2::rat) powi ((bitlen p - 1) - bitlen q) = 2 powi (bitlen p - 1) / 2 powi (bitlen q)"
        by (rule power_int_diff) simp
      moreover have "?e - 1 = (bitlen p - 1) - bitlen q"
        by simp
      ultimately show ?thesis
        by (simp only:)
    qed
    have d: "(0::rat) < of_int q"
      using q by simp
    have e: "(0::rat) \<le> of_int p"
      using p by simp
    have "2 powi (bitlen p - 1) / 2 powi (bitlen q) \<le> (of_int p :: rat) / of_int q"
      using e a d b by (rule frac_le)
    then show ?thesis
      unfolding x c .
  qed
  then show ?thesis
    using pq by (simp add: binade_def Let_def)
qed

lemma binade_upper:
  assumes "x \<noteq> 0" and "\<bar>x\<bar> < 2 powi k"
  shows "binade x < k"
proof (rule ccontr)
  assume "\<not> binade x < k"
  then have "(2::rat) powi k \<le> 2 powi (binade x)"
    by (intro power_int_increasing) auto
  then show False
    using binade_lower [OF assms(1)] assms(2) by linarith
qed

lemma to_float64_error:
  assumes "\<bar>x\<bar> < 2 powi k" and "- 1021 \<le> k"
  shows "\<bar>to_float64 x - x\<bar> \<le> 2 powi (k - 54)"
proof (cases "x = 0")
  case True
  then show ?thesis
    by (simp add: to_float64_def)
next
  case False
  let ?m = "max (binade x) (- 1022)"
  let ?q = "(2::rat) powi (?m - 52)"
  have m: "?m \<le> k - 1"
    using binade_upper [OF False assms(1)] assms(2) by simp
  have q: "0 < ?q"
    by simp
  have "to_float64 x - x = (of_int (round_half_even (x / ?q)) - x / ?q) * ?q"
    using False by (simp add: to_float64_def Let_def left_diff_distrib)
  then have "\<bar>to_float64 x - x\<bar> = \<bar>of_int (round_half_even (x / ?q)) - x / ?q\<bar> * ?q"
    using q by (simp add: abs_mult)
  also have "\<dots> \<le> 1 / 2 * ?q"
    using round_half_even_error [of "x / ?q"] q by (intro mult_right_mono) auto
  also have "1 / 2 * ?q = 2 powi (?m - 53)"
  proof -
    have "(2::rat) powi ((?m - 52) - 1) = 2 powi (?m - 52) / 2 powi 1"
      by (rule power_int_diff) simp
    moreover have "(?m - 52) - 1 = ?m - 53"
      by simp
    ultimately show ?thesis
      by simp
  qed
  also have "\<dots> \<le> 2 powi (k - 54)"
    using m by (intro power_int_increasing) auto
  finally show ?thesis .
qed

lemma to_float64_of_int:
  assumes "\<bar>n\<bar> < 2 ^ 53"
  shows "to_float64 (of_int n) = of_int n"
proof (cases "n = 0")
  case True
  then show ?thesis
    by (simp add: to_float64_def)
next
  case False
  let ?x = "of_int n :: rat"
  let ?m = "max (binade ?x) (- 1022)"
  have "\<bar>?x\<bar> < 2 powi 53"
  proof -
    have "\<bar>?x\<bar> = of_int \<bar>n\<bar>"
      by simp
    also have "\<dots> < of_int (2 ^ 53)"
      using assms by (simp only: of_int_less_iff)
    finally show ?thesis
      by simp
  qed
  then have "binade ?x < 53"
    using False by (intro binade_upper) auto
  then have m: "?m \<le> 52"
    by simp
  define j where "j = nat (52 - ?m)"
  have q: "(2::rat) powi (?m - 52) = 1 / 2 ^ j"
  proof -
    have "?m - 52 = - int j"
      using m by (simp add: j_def)
    then show ?thesis
      by (simp add: power_int_minus divide_inverse)
  qed
  have "?x / (1 / 2 ^ j) = of_int (n * 2 ^ j)"
    by simp
  then have "round_half_even (?x / (1 / 2 ^ j)) = n * 2 ^ j"
    by (simp only: round_half_even_of_int)
  then have "to_float64 ?x = of_int (n * 2 ^ j) * (1 / 2 ^ j)"
    using False unfolding to_float64_def Let_def q by simp
  then show ?thesis
    by simp
qed

text \<open>
  \<open>Seconds()\<close> is within \<open>2 powi (- 20) + 2 powi (- 54)\<close> of the exact number of
  seconds, so it tells apart any two durations that are whole numbers of milliseconds.
\<close>

lemma sint_word_of_int_64:
  assumes "- (2 ^ 63) \<le> z" and "z < 2 ^ 63"
  shows "sint (word_of_int z :: 64 word) = z"
  using assms by (simp add: signed_of_int signed_take_bit_int_eq_self)

lemma sdiv_smod_Second:
  fixes D :: int
  assumes "- (2 ^ 63) \<le> D" and "D < 2 ^ 63"
  shows "\<bar>D sdiv 1000000000\<bar> \<le> 9223372036" and "\<bar>D smod 1000000000\<bar> < 1000000000"
    and "D sdiv 1000000000 * 1000000000 + D smod 1000000000 = D"
proof -
  have "\<bar>D\<bar> \<le> 2 ^ 63"
    using assms by simp
  then have "\<bar>D\<bar> div 1000000000 \<le> 2 ^ 63 div 1000000000"
    by (rule zdiv_mono1) simp
  then have a: "\<bar>D\<bar> div 1000000000 \<le> 9223372036"
    by simp
  have b: "0 \<le> \<bar>D\<bar> div 1000000000"
    by (simp add: pos_imp_zdiv_nonneg_iff)
  have "\<bar>D sdiv 1000000000\<bar> = \<bar>D\<bar> div 1000000000"
    using b by (simp add: signed_divide_int_def abs_mult abs_sgn_eq)
       (metis abs_0 abs_of_nonneg b div_0)
  then show "\<bar>D sdiv 1000000000\<bar> \<le> 9223372036"
    using a by simp
  have c: "0 \<le> \<bar>D\<bar> mod 1000000000" and d: "\<bar>D\<bar> mod 1000000000 < 1000000000"
    by simp_all
  have "\<bar>D smod 1000000000\<bar> \<le> \<bar>D\<bar> mod 1000000000"
    using c by (simp add: signed_modulo_int_def abs_mult abs_sgn_eq)
  then show "\<bar>D smod 1000000000\<bar> < 1000000000"
    using d by linarith
  show "D sdiv 1000000000 * 1000000000 + D smod 1000000000 = D"
    by (rule sdiv_mult_smod_eq)
qed

lemma Seconds_error:
  "\<bar>Seconds d - of_int (sint d) / 1000000000\<bar> \<le> 2 powi (- 20) + 2 powi (- 54)"
proof -
  define D where "D = sint d"
  define sec where "sec = D sdiv 1000000000"
  define nsec where "nsec = D smod 1000000000"
  have D: "- (2 ^ 63) \<le> D" "D < 2 ^ 63"
    using sint_ge [of d] sint_lt [of d] by (simp_all add: D_def)
  have sec: "\<bar>sec\<bar> \<le> 9223372036" and nsec: "\<bar>nsec\<bar> < 1000000000"
    and eq: "sec * 1000000000 + nsec = D"
    using sdiv_smod_Second [OF D] by (simp_all add: sec_def nsec_def)
  have s1: "sint (word_of_int sec :: 64 word) = sec"
    using sec by (intro sint_word_of_int_64) auto
  have s2: "sint (word_of_int nsec :: 64 word) = nsec"
    using nsec by (intro sint_word_of_int_64) auto
  have f1: "to_float64 (of_int sec) = of_int sec"
    using sec by (intro to_float64_of_int) auto
  have f2: "to_float64 (of_int nsec) = of_int nsec"
    using nsec by (intro to_float64_of_int) auto
  define x where "x = (of_int nsec :: rat) / 1000000000"
  define y where "y = to_float64 x"
  have r1: "(signed (word_of_int sec :: 64 word) :: rat) = of_int sec"
    using s1 by (metis of_int_sint)
  have r2: "(signed (word_of_int nsec :: 64 word) :: rat) = of_int nsec"
    using s2 by (metis of_int_sint)
  have "Seconds d = to_float64 (to_float64 (of_int (sint (word_of_int sec :: 64 word)))
      + to_float64 (to_float64 (of_int (sint (word_of_int nsec :: 64 word))) / 1000000000))"
    unfolding Seconds_def Let_def float64_add_def float64_div_def float64_of_int64_def
      sec_def nsec_def D_def by (simp add: Second_def)
  then have S: "Seconds d = to_float64 (of_int sec + y)"
    unfolding s1 s2 f1 f2 x_def y_def .
  have x1: "\<bar>x\<bar> < 1"
  proof -
    have "\<bar>of_int nsec :: rat\<bar> < 1000000000"
      using nsec by (metis of_int_abs of_int_less_iff of_int_numeral)
    then show ?thesis
      by (simp add: x_def)
  qed
  have ey: "\<bar>y - x\<bar> \<le> 2 powi (- 54)"
    using to_float64_error [of x 0] x1 by (simp add: y_def)
  have p54: "(2::rat) powi (- 54) \<le> 1"
    by (simp add: power_int_minus inverse_eq_divide)
  have "\<bar>of_int sec :: rat\<bar> \<le> 9223372036"
    using sec by (metis of_int_abs of_int_le_iff of_int_numeral)
  then have "\<bar>of_int sec + y\<bar> < 17179869184"
    using x1 ey p54 by linarith
  then have "\<bar>of_int sec + y\<bar> < 2 powi 34"
    by simp
  then have es: "\<bar>to_float64 (of_int sec + y) - (of_int sec + y)\<bar> \<le> 2 powi (- 20)"
    using to_float64_error [of "of_int sec + y" 34] by simp
  have "(of_int D :: rat) / 1000000000 = of_int sec + x"
  proof -
    have "(of_int D :: rat) = of_int sec * 1000000000 + of_int nsec"
      using eq by (metis of_int_add of_int_mult of_int_numeral)
    then show ?thesis
      by (simp add: x_def add_divide_distrib)
  qed
  then have "\<bar>Seconds d - of_int D / 1000000000\<bar> \<le> 2 powi (- 20) + 2 powi (- 54)"
    using S es ey by linarith
  then show ?thesis
    unfolding D_def .
qed

lemma Seconds_inj_on_milliseconds:
  assumes "sint a = 1000000 * m" and "sint b = 1000000 * n" and "Seconds a = Seconds b"
  shows "a = b"
proof -
  define z where "z = (of_int (m - n) :: rat)"
  have p: "(2::rat) powi (- 20) + 2 powi (- 54) < 1 / 4000"
    by (simp add: power_int_minus inverse_eq_divide)
  have "\<bar>(of_int (sint a) :: rat) / 1000000000 - of_int (sint b) / 1000000000\<bar> < 1 / 2000"
    using Seconds_error [of a] Seconds_error [of b] assms(3) p by linarith
  moreover have "(of_int (sint a) :: rat) / 1000000000 - of_int (sint b) / 1000000000 = z / 1000"
    unfolding assms(1,2) z_def by (simp add: diff_divide_distrib)
  ultimately have "\<bar>z / 1000\<bar> < 1 / 2000"
    by (simp only:)
  then have "z < 1" and "- 1 < z"
    by linarith+
  then have "m - n < 1" and "- 1 < m - n"
    unfolding z_def by linarith+
  then have "sint a = sint b"
    using assms(1,2) by simp
  then show ?thesis
    by (rule signed_word_eqI)
qed

text \<open>
  The \<open>ParseDuration\<close> of the spec returns whole numbers of milliseconds, on which
  equal \<open>Seconds()\<close> means equal durations.
\<close>

lemma decimal_value_nonneg:
  assumes "list_all is_digit ds"
  shows "0 \<le> decimal_value ds"
proof -
  have "0 \<le> foldl (\<lambda>n c. 10 * n + (of_char c - 48)) n ds" if "0 \<le> n" for n :: int
    using assms that
  proof (induction ds arbitrary: n)
    case Nil
    then show ?case by simp
  next
    case (Cons c ds)
    have "is_digit c"
      using Cons.prems(1) by simp
    then have "(48::int) \<le> of_char c"
      by (auto simp: is_digit_def)
    then have "0 \<le> 10 * n + (of_char c - 48)"
      using Cons.prems(2) by simp
    then show ?case
      using Cons.IH Cons.prems(1) by simp
  qed
  then show ?thesis
    by (simp add: decimal_value_def)
qed

lemma duration_unit_milliseconds:
  assumes "duration_unit s = Some (u, r)"
  shows "0 \<le> u \<and> 1000000 dvd u"
  using assms by (auto simp: duration_unit_def split: if_splits)

lemma duration_tokens_step:
  assumes "duration_tokens acc s = Some ns" and "s \<noteq> []"
  shows "takeWhile is_digit s \<noteq> []
    \<and> (\<exists>u r. duration_unit (dropWhile is_digit s) = Some (u, r)
          \<and> duration_tokens (acc + decimal_value (takeWhile is_digit s) * u) r = Some ns)"
proof -
  have e: "duration_tokens acc s =
     (if takeWhile is_digit s = [] then None
      else
        (case duration_unit (dropWhile is_digit s) of
           None \<Rightarrow> None
         | Some (u, r) \<Rightarrow> duration_tokens (acc + decimal_value (takeWhile is_digit s) * u) r))"
    using assms(2) by (subst duration_tokens.simps) simp
  show ?thesis
  proof (cases "takeWhile is_digit s = []")
    case True
    then show ?thesis
      using assms(1) e by simp
  next
    case False
    show ?thesis
    proof (cases "duration_unit (dropWhile is_digit s)")
      case None
      then show ?thesis
        using assms(1) e False by simp
    next
      case (Some ur)
      obtain u r where ur: "ur = (u, r)"
        by (cases ur)
      have "duration_tokens (acc + decimal_value (takeWhile is_digit s) * u) r = Some ns"
        using assms(1) e False Some ur by simp
      then show ?thesis
        using False Some ur by blast
    qed
  qed
qed

lemma duration_tokens_milliseconds:
  "duration_tokens acc s = Some ns \<Longrightarrow> 0 \<le> acc \<Longrightarrow> 1000000 dvd acc
    \<Longrightarrow> 0 \<le> ns \<and> 1000000 dvd ns"
proof (induction acc s rule: duration_tokens.induct)
  case (1 acc s)
  show ?case
  proof (cases "s = []")
    case True
    have "duration_tokens acc s = Some acc"
      using True by (subst duration_tokens.simps) simp
    then show ?thesis
      using "1.prems" by simp
  next
    case False
    let ?ds = "takeWhile is_digit s"
    obtain u r where ds: "?ds \<noteq> []"
      and u: "duration_unit (dropWhile is_digit s) = Some (u, r)"
      and rec: "duration_tokens (acc + decimal_value ?ds * u) r = Some ns"
      using duration_tokens_step [OF "1.prems"(1) False] by blast
    have "list_all is_digit ?ds"
      unfolding list_all_iff by (blast dest: set_takeWhileD)
    then have d: "0 \<le> decimal_value ?ds"
      by (rule decimal_value_nonneg)
    have uu: "0 \<le> u" "1000000 dvd u"
      using duration_unit_milliseconds [OF u] by blast+
    have a: "0 \<le> acc + decimal_value ?ds * u"
      using "1.prems"(2) d uu(1) by simp
    have b: "1000000 dvd acc + decimal_value ?ds * u"
      using "1.prems"(3) uu(2) by (intro dvd_add dvd_mult) 
    show ?thesis
      using False ds u refl rec a b by (rule "1.IH")
  qed
qed

lemma ParseDuration_milliseconds:
  assumes "ParseDuration s = (d, None)"
  shows "\<exists>m. sint d = 1000000 * m"
proof (cases "duration_tokens 0 s")
  case None
  then have "snd (ParseDuration s) \<noteq> None"
    unfolding ParseDuration_def by (simp del: duration_tokens.simps)
  then show ?thesis
    using assms by simp
next
  case (Some ns)
  have m: "0 \<le> ns \<and> 1000000 dvd ns"
    using Some by (rule duration_tokens_milliseconds) simp_all
  have "ParseDuration s =
      (if s = [] then (0, Some (InvalidDuration s))
       else if ns < 2 ^ 63 then (word_of_int ns, None) else (0, Some (InvalidDuration s)))"
    unfolding ParseDuration_def Some by (simp del: duration_tokens.simps)
  then have lt: "ns < 2 ^ 63" and d: "d = word_of_int ns"
    using assms by (simp_all del: duration_tokens.simps split: if_splits)
  have "sint d = ns"
    unfolding d using lt m by (intro sint_word_of_int_64) auto
  then show ?thesis
    using m by (auto simp: dvd_def)
qed

lemma Seconds_ParseDuration:
  assumes "ParseDuration old = (od, None)" and "ParseDuration new = (nd, None)"
  shows "Seconds od = Seconds nd \<longleftrightarrow> od = nd"
proof
  assume s: "Seconds od = Seconds nd"
  obtain m n where "sint od = 1000000 * m" and "sint nd = 1000000 * n"
    using ParseDuration_milliseconds assms by blast
  then show "od = nd"
    using s by (rule Seconds_inj_on_milliseconds)
next
  assume "od = nd"
  then show "Seconds od = Seconds nd"
    by simp
qed

text \<open>
  C1. On two non-empty, different texts that both parse as durations, \<open>TimeEquall\<close>
  returns whether the two durations are the same number of seconds, that is, whether
  their \<open>Seconds()\<close> are equal; this for whatever \<open>ParseDuration\<close> is. With the
  \<open>ParseDuration\<close> of the spec that is whether the two durations are equal, and \<open>1h\<close>
  and \<open>3600s\<close> compare equal while \<open>1h\<close> and \<open>2h\<close> do not.
\<close>

theorem TimeEquall_compares_seconds:
  "(old \<noteq> new \<and> old \<noteq> [] \<and> new \<noteq> [] \<and> pd old = (od, None) \<and> pd new = (nd, None)
      \<longrightarrow> TimeEquall pd k old new d = Inr (Seconds od = Seconds nd))
   \<and> (old \<noteq> new \<and> old \<noteq> [] \<and> new \<noteq> [] \<and> ParseDuration old = (od, None)
        \<and> ParseDuration new = (nd, None)
      \<longrightarrow> TimeEquall ParseDuration k old new d = Inr (od = nd))
   \<and> TimeEquall ParseDuration k ''1h'' ''3600s'' d = Inr True
   \<and> TimeEquall ParseDuration k ''1h'' ''2h'' d = Inr False"
proof (intro conjI impI)
  assume "old \<noteq> new \<and> old \<noteq> [] \<and> new \<noteq> [] \<and> pd old = (od, None) \<and> pd new = (nd, None)"
  then show "TimeEquall pd k old new d = Inr (Seconds od = Seconds nd)"
    by (simp add: TimeEquall_def)
next
  assume a: "old \<noteq> new \<and> old \<noteq> [] \<and> new \<noteq> [] \<and> ParseDuration old = (od, None)
      \<and> ParseDuration new = (nd, None)"
  then have "TimeEquall ParseDuration k old new d = Inr (Seconds od = Seconds nd)"
    by (simp add: TimeEquall_def)
  moreover have "Seconds od = Seconds nd \<longleftrightarrow> od = nd"
    using a by (intro Seconds_ParseDuration) blast+
  ultimately show "TimeEquall ParseDuration k old new d = Inr (od = nd)"
    by simp
next
  show "TimeEquall ParseDuration k ''1h'' ''3600s'' d = Inr True"
    by code_simp
  show "TimeEquall ParseDuration k ''1h'' ''2h'' d = Inr False"
    by code_simp
qed

theorem TimeEquall_compares_seconds_witness:
  "''1h'' \<noteq> ''3600s'' \<and> ParseDuration ''1h'' = (3600000000000, None)
   \<and> ParseDuration ''3600s'' = (3600000000000, None)
   \<and> Seconds 3600000000000 = 3600
   \<and> TimeEquall ParseDuration ''interval'' ''1h'' ''3600s'' None = Inr True
   \<and> ''1h'' \<noteq> ''2h'' \<and> ParseDuration ''2h'' = (7200000000000, None)
   \<and> Seconds 7200000000000 = 7200
   \<and> TimeEquall ParseDuration ''interval'' ''1h'' ''2h'' None = Inr False"
proof -
  have a: "ParseDuration ''1h'' = (3600000000000, None)"
    by code_simp
  have b: "ParseDuration ''3600s'' = (3600000000000, None)"
    by code_simp
  have c: "ParseDuration ''2h'' = (7200000000000, None)"
    by code_simp
  have e: "Seconds 3600000000000 = 3600"
    by code_simp
  have f: "Seconds 7200000000000 = 7200"
    by code_simp
  have g: "TimeEquall ParseDuration ''interval'' ''1h'' ''3600s'' None = Inr True"
    using a b
      TimeEquall_compares_seconds [where old = "''1h''" and new = "''3600s''"
        and pd = ParseDuration and od = 3600000000000 and nd = 3600000000000
        and k = "''interval''" and d = None]
    by blast
  have h: "TimeEquall ParseDuration ''interval'' ''1h'' ''2h'' None = Inr False"
    using a c
      TimeEquall_compares_seconds [where old = "''1h''" and new = "''2h''"
        and pd = ParseDuration and od = 3600000000000 and nd = 7200000000000
        and k = "''interval''" and d = None]
    by blast
  show ?thesis
    using a b c e f g h by simp
qed

section \<open>The service fields\<close>

text \<open>
  C8. The schemas of \<open>PropResourcePath p\<close> and \<open>PropId t\<close> carry a diff-suppressor that
  returns true on every key, old value, new value and resource data, so no change of these
  fields is ever reported; their defaults are \<open>p\<close> and \<open>int(t)\<close>.
\<close>

theorem service_fields_never_diffed:
  "(\<exists>f. DiffSuppressFunc (PropResourcePath p) = Some f \<and> (\<forall>k old new d. f k old new d))
   \<and> (\<exists>g. DiffSuppressFunc (PropId t) = Some g \<and> (\<forall>k old new d. g k old new d))
   \<and> Default (PropResourcePath p) = VString p
   \<and> Default (PropId t) = VInt (int_of_IdType t)"
  by (simp add: PropResourcePath_def PropId_def)

section \<open>The read filter\<close>

text \<open>The loop appends one constraint for each key it visits.\<close>

lemma buildReadFilter_loop_eq:
  "set ks \<subseteq> dom m \<Longrightarrow> buildReadFilter_loop m res ks = res @ map (filter_entry m) ks"
proof (induction ks arbitrary: res)
  case Nil
  then show ?case by simp
next
  case (Cons k ks)
  then obtain v where v: "m k = Some v"
    by auto
  have "buildReadFilter_loop m (res @ [k @ ''='' @ fmt_v v]) ks
      = (res @ [k @ ''='' @ fmt_v v]) @ map (filter_entry m) ks"
    using Cons by simp
  then show ?case
    using v by (simp add: filter_entry_def fmt_v_def)
qed

text \<open>
  C5, as the claim states it, fails: the same map of two entries, visited in the two
  possible orders, gives two different sequences.
\<close>

theorem buildReadFilter_order_counterexample:
  "range_order [''a'' \<mapsto> VString ''1'', ''b'' \<mapsto> VString ''2''] [''a'', ''b'']
   \<and> range_order [''a'' \<mapsto> VString ''1'', ''b'' \<mapsto> VString ''2''] [''b'', ''a'']
   \<and> buildReadFilter [''a'' \<mapsto> VString ''1'', ''b'' \<mapsto> VString ''2''] [''a'', ''b'']
       = [''a=1'', ''b=2'']
   \<and> buildReadFilter [''a'' \<mapsto> VString ''1'', ''b'' \<mapsto> VString ''2''] [''b'', ''a'']
       = [''b=2'', ''a=1'']
   \<and> [''a=1'', ''b=2''] \<noteq> [''b=2'', ''a=1'']"
  by (auto simp: range_order_def buildReadFilter_def fmt_v_def)

text \<open>
  C5, amended. Whatever the order in which the loop visits the map, \<open>buildReadFilter\<close>
  returns one constraint \<open><fieldName>=<fieldValue>\<close> for each entry and nothing else, in
  the order of the visit; two calls on equal maps return the same constraints, each as
  many times, possibly in a different order.
\<close>

theorem buildReadFilter_entries:
  "range_order m ks \<Longrightarrow> range_order m ks' \<Longrightarrow>
   buildReadFilter m ks = map (filter_entry m) ks
   \<and> length (buildReadFilter m ks) = card (dom m)
   \<and> mset (buildReadFilter m ks) = image_mset (filter_entry m) (mset_set (dom m))
   \<and> mset (buildReadFilter m ks) = mset (buildReadFilter m ks')"
proof -
  assume a: "range_order m ks" and b: "range_order m ks'"
  have 1: "buildReadFilter m ks = map (filter_entry m) ks"
    using a buildReadFilter_loop_eq [of ks m "[]"] by (simp add: range_order_def buildReadFilter_def)
  have 2: "buildReadFilter m ks' = map (filter_entry m) ks'"
    using b buildReadFilter_loop_eq [of ks' m "[]"] by (simp add: range_order_def buildReadFilter_def)
  have 3: "mset ks = mset_set (dom m)"
    using a by (metis mset_set_set range_order_def)
  have 4: "mset ks' = mset_set (dom m)"
    using b by (metis mset_set_set range_order_def)
  have 5: "length ks = card (dom m)"
    using a by (metis distinct_card range_order_def)
  show ?thesis
    using 1 2 3 4 5 by simp
qed

theorem buildReadFilter_entries_witness:
  "range_order [''a'' \<mapsto> VString ''1'', ''b'' \<mapsto> VInt 2] [''a'', ''b'']
   \<and> range_order [''a'' \<mapsto> VString ''1'', ''b'' \<mapsto> VInt 2] [''b'', ''a'']
   \<and> buildReadFilter [''a'' \<mapsto> VString ''1'', ''b'' \<mapsto> VInt 2] [''a'', ''b'']
       = [''a=1'', ''b=2'']
   \<and> mset (buildReadFilter [''a'' \<mapsto> VString ''1'', ''b'' \<mapsto> VInt 2] [''a'', ''b''])
       = mset (buildReadFilter [''a'' \<mapsto> VString ''1'', ''b'' \<mapsto> VInt 2] [''b'', ''a''])"
proof -
  let ?m = "[''a'' \<mapsto> VString ''1'', ''b'' \<mapsto> VInt 2]"
  have a: "range_order ?m [''a'', ''b'']"
    by (auto simp: range_order_def)
  have b: "range_order ?m [''b'', ''a'']"
    by (auto simp: range_order_def)
  have c: "buildReadFilter ?m [''a'', ''b''] = [''a=1'', ''b=2'']"
    by code_simp
  have d: "mset (buildReadFilter ?m [''a'', ''b'']) = mset (buildReadFilter ?m [''b'', ''a''])"
    using buildReadFilter_entries [OF a b] by blast
  show ?thesis
    using a b c d by blast
qed

end
